theory Spec2Isabelle
  imports Complex_Main "HOL-Library.Word" "HOL-Library.Monad_Syntax"
    "HOL-Library.Signed_Division"
begin

chapter \<open>The model of the search monitors\<close>

section \<open>The monitor protocol\<close>

text \<open>
  The hooks of SearchMonitor that the search driver broadcasts. A monitor overrides some
  of them; the others are the empty defaults of the base class.
\<close>

datatype hook =
    EnterSearch | RestartSearch | ExitSearch
  | BeginNextDecision | EndNextDecision | ApplyDecision | RefuteDecision
  | BeginFail | EndFail | BeginInitialPropagation | EndInitialPropagation
  | AtSolution | AcceptSolution | NoMoreSolutions
  | LocalOptimum | AcceptNeighbor | AcceptDelta

section \<open>Machine integers\<close>

text \<open>
  \<open>int64\<close> is a 64-bit word read as two's complement (\<open>sint\<close>); \<open>+\<close> and \<open>-\<close> wrap
  around. \<open>in_int64\<close> says that an integer result fits, that is, that the C++ operation
  does not overflow. Division truncates toward zero (\<open>int64_sdiv\<close>).
\<close>

type_synonym int64 = "64 word"

definition kint64max :: int64 where
  "kint64max = 0x7FFFFFFFFFFFFFFF"

definition kint64min :: int64 where
  "kint64min = 0x8000000000000000"

definition in_int64 :: "int \<Rightarrow> bool" where
  "in_int64 x \<longleftrightarrow> - (2 ^ 63) \<le> x \<and> x < 2 ^ 63"

definition int64_sdiv :: "int64 \<Rightarrow> int64 \<Rightarrow> int64" where
  "int64_sdiv a b = word_of_int (sint a sdiv sint b)"

text \<open>
  \<open>int32\<close> is the C++ \<open>int\<close> of the platforms the library is built for, a 32-bit word
  read as two's complement. An int operand of an int64 operation is first converted
  to int64, which keeps its value (\<open>int32_to_int64\<close>); an int64 passed for an int
  parameter keeps its low 32 bits (\<open>int64_to_int32\<close>).
\<close>

type_synonym int32 = "32 word"

definition kint32max :: int32 where
  "kint32max = 0x7FFFFFFF"

definition in_int32 :: "int \<Rightarrow> bool" where
  "in_int32 x \<longleftrightarrow> - (2 ^ 31) \<le> x \<and> x < 2 ^ 31"

definition int32_to_int64 :: "int32 \<Rightarrow> int64" where
  "int32_to_int64 w = word_of_int (sint w)"

definition int64_to_int32 :: "int64 \<Rightarrow> int32" where
  "int64_to_int32 w = word_of_int (sint w)"


section \<open>The solver's counters\<close>

text \<open>
  The class Solver is not in search.cc. The monitors read its counters
  \<open>wall_time()\<close>, \<open>branches()\<close>, \<open>failures()\<close> and \<open>solutions()\<close>; their values at
  the moment of a hook are the fields of a \<open>solver_counters\<close>.
\<close>

record solver_counters =
  solver_wall_time :: int64
  solver_branches :: int64
  solver_failures :: int64
  solver_solutions :: int64

section \<open>Floating-point numbers\<close>

text \<open>
  The C++ \<open>double\<close> and \<open>float\<close> values are modelled by the reals they denote. Each
  operation of the source is the exact operation followed by the rounding of IEEE 754:
  to the nearest representable number, ties to the even significand (\<open>rne\<close>), with
  \<open>p\<close> bits of precision and least exponent \<open>emin\<close> (below it the spacing stays that of
  the subnormal numbers). \<open>double\<close> has \<open>p = 53\<close>, \<open>emin = -1022\<close>; \<open>float\<close> has
  \<open>p = 24\<close>, \<open>emin = -126\<close>. Overflow to infinity is not modelled: the values that
  occur here are below \<open>2 ^ 64\<close> in magnitude. The conversion of a double to int64
  truncates toward zero; out of the range of int64 the C++ conversion is undefined, and
  the model wraps around.
\<close>

definition rne :: "real \<Rightarrow> int" where
  "rne y =
     (let f = \<lfloor>y\<rfloor> in
      if y - of_int f < 1 / 2 then f
      else if 1 / 2 < y - of_int f then f + 1
      else if even f then f else f + 1)"

definition fp_round :: "nat \<Rightarrow> int \<Rightarrow> real \<Rightarrow> real" where
  "fp_round p emin x =
     (if x = 0 then 0
      else (let e = max \<lfloor>log 2 \<bar>x\<bar>\<rfloor> emin;
                ulp = 2 powi (e - int p + 1)
            in of_int (rne (x / ulp)) * ulp))"

definition to_double :: "real \<Rightarrow> real" where
  "to_double = fp_round 53 (- 1022)"

definition to_float :: "real \<Rightarrow> real" where
  "to_float = fp_round 24 (- 126)"

definition double_to_int64 :: "real \<Rightarrow> int64" where
  "double_to_int64 x = word_of_int (if 0 \<le> x then \<lfloor>x\<rfloor> else \<lceil>x\<rceil>)"

definition int64_to_double :: "int64 \<Rightarrow> real" where
  "int64_to_double v = to_double (of_int (sint v))"

section \<open>Restart schedule (constraint\_solver/search.cc, Restart)\<close>

subsection \<open>NextLuby\<close>

text \<open>
  The source:
  \<^verbatim>\<open>
  int64 NextLuby(int i) {
    DCHECK_GT(i, 0);
    DCHECK_LT(i, kint32max);
    int64 power;
    power = 2;
    while (power < (i + 1)) { power <<= 1; }
    if (power == i + 1) { return (power / 2); }
    return NextLuby(i - (power / 2) + 1);
  }
  \<close>
  The argument is a 32-bit int and \<open>power\<close> an int64. \<open>i + 1\<close> is computed in int,
  wrapping around at kint32max, and then converted to int64 for the comparisons;
  \<open>i - (power / 2) + 1\<close> is computed in int64 and narrowed to the int parameter of the
  recursive call. The two DCHECKs state the range the function is written for,
  \<open>0 < i < kint32max\<close>; they are compiled out of an optimised build and are not part
  of the model. Neither the loop nor the recursion ends for every argument
  (\<open>NextLuby(0)\<close> and \<open>NextLuby(kint32max)\<close> call themselves with the same argument),
  so both are partial functions, and not returning is the value \<open>None\<close>.
\<close>

partial_function (option) luby_power_loop :: "int64 \<Rightarrow> int64 \<Rightarrow> int64 option" where
  "luby_power_loop pw n =
     (if sint pw < sint n then luby_power_loop (push_bit 1 pw) n else Some pw)"

partial_function (option) NextLuby :: "int32 \<Rightarrow> int64 option" where
  "NextLuby i =
     do { pw \<leftarrow> luby_power_loop 2 (int32_to_int64 (i + 1));
          if pw = int32_to_int64 (i + 1) then Some (int64_sdiv pw 2)
          else NextLuby (int64_to_int32 (int32_to_int64 i - int64_sdiv pw 2 + 1)) }"

declare luby_power_loop.simps [code] NextLuby.simps [code]

subsection \<open>LubyRestart\<close>

text \<open>
  \<^verbatim>\<open>
  LubyRestart(Solver* const s, int scale_factor)
      : SearchMonitor(s), scale_factor_(scale_factor), iteration_(1),
        current_fails_(0), next_step_(scale_factor) {
    CHECK_GE(scale_factor, 1);
  }
  virtual void BeginFail() {
    if (++current_fails_ >= next_step_) {
      current_fails_ = 0;
      next_step_ = NextLuby(++iteration_) * scale_factor_;
      RestartCurrentSearch();
    }
  }
  const int scale_factor_;
  int iteration_;
  int64 current_fails_;
  int64 next_step_;
  \<close>
  The constructor's CHECK aborts the program on a scale factor below 1 (\<open>None\<close>).
  \<open>BeginFail\<close> returns the new state and whether it called RestartCurrentSearch; it
  returns nothing (\<open>None\<close>) when \<open>NextLuby\<close> does not return. The increments wrap
  around in the width of the member, the comparison is signed, and the product is
  taken in int64 after converting \<open>scale_factor_\<close>. The class overrides no other hook:
  \<open>EnterSearch\<close> is the empty default of SearchMonitor. The trailing underscore of the
  C++ member names is dropped.
\<close>

record LubyRestart =
  scale_factor :: int32
  iteration :: int32
  current_fails :: int64
  next_step :: int64

definition new_LubyRestart :: "int32 \<Rightarrow> LubyRestart option" where
  "new_LubyRestart sf =
     (if 1 \<le> sint sf
      then Some \<lparr>scale_factor = sf, iteration = 1, current_fails = 0,
                 next_step = int32_to_int64 sf\<rparr>
      else None)"

definition LubyRestart_BeginFail :: "LubyRestart \<Rightarrow> (LubyRestart \<times> bool) option" where
  "LubyRestart_BeginFail m =
     (let cf = current_fails m + 1 in
      if sint (next_step m) \<le> sint cf
      then do { l \<leftarrow> NextLuby (iteration m + 1);
                Some (m\<lparr>current_fails := 0, iteration := iteration m + 1,
                        next_step := l * int32_to_int64 (scale_factor m)\<rparr>, True) }
      else Some (m\<lparr>current_fails := cf\<rparr>, False))"

text \<open>
  A search broadcasts hooks to the monitor. A trace of them is run with
  \<open>LubyRestart_run\<close>, which also counts the restarts requested so far and remembers
  whether the latest BeginFail requested one. Every hook but BeginFail is the empty
  default.
\<close>

definition LubyRestart_hook :: "hook \<Rightarrow> LubyRestart \<Rightarrow> (LubyRestart \<times> bool) option" where
  "LubyRestart_hook h m = (if h = BeginFail then LubyRestart_BeginFail m else Some (m, False))"

fun LubyRestart_run ::
  "LubyRestart \<times> nat \<times> bool \<Rightarrow> hook list \<Rightarrow> (LubyRestart \<times> nat \<times> bool) option" where
  "LubyRestart_run st [] = Some st"
| "LubyRestart_run (m, c, r) (h # hs) =
     do { (m', r') \<leftarrow> LubyRestart_hook h m;
          LubyRestart_run (m', (if r' then Suc c else c), (if h = BeginFail then r' else r)) hs }"

text \<open>The values of the schedule as integers, the number of failures at which the k-th
  restart is due, and the number of failures in a trace.\<close>

definition Luby :: "nat \<Rightarrow> int" where
  "Luby i = (case NextLuby (of_nat i) of Some v \<Rightarrow> sint v | None \<Rightarrow> 0)"

definition restart_point :: "int \<Rightarrow> nat \<Rightarrow> int" where
  "restart_point scale k = scale * (\<Sum>i\<leftarrow>[1..<Suc k]. Luby i)"

definition fails_in :: "hook list \<Rightarrow> int" where
  "fails_in es = int (length (filter (\<lambda>e. e = BeginFail) es))"

text \<open>The state of the monitor after \<open>n\<close> failures, \<open>c\<close> of which requested a restart;
  \<open>iteration_\<close> is \<open>c + 1\<close> and is still below \<open>kint32max - 1 = 2147483646\<close>.\<close>

definition luby_inv :: "int32 \<Rightarrow> int \<Rightarrow> LubyRestart \<times> nat \<times> bool \<Rightarrow> bool" where
  "luby_inv scale n st =
     (case st of (m, c, r) \<Rightarrow>
        scale_factor m = scale \<and> sint (LubyRestart.iteration m) = int c + 1 \<and>
        sint (current_fails m) = n - restart_point (sint scale) c \<and>
        sint (next_step m) = Luby (Suc c) * sint scale \<and>
        restart_point (sint scale) c \<le> n \<and> n < restart_point (sint scale) (Suc c) \<and>
        c < 2147483646 \<and>
        (r \<longleftrightarrow> 0 < c \<and> n = restart_point (sint scale) c))"

section \<open>Objective management: OptimizeVar\<close>



record OptimizeVar =
  step :: int64
  best :: int64
  maximize :: bool






definition OptimizeVar_AcceptSolution :: "OptimizeVar \<Rightarrow> int64 \<Rightarrow> bool" where
  "OptimizeVar_AcceptSolution m val \<longleftrightarrow>
     (maximize m \<and> sint (best m) < sint val) \<or> (\<not> maximize m \<and> sint val < sint (best m))"


text \<open>
  Modelled from the spec: the broadcast of AcceptSolution by the search driver, which is
  not in search.cc. The spec (4.7): "AcceptSolution is an AND across monitors". The
  argument is the list of the monitors' answers.
\<close>

fun AcceptSolution_fold :: "bool list \<Rightarrow> bool" where
  "AcceptSolution_fold [] = True"
| "AcceptSolution_fold (v # vs) = (v \<and> AcceptSolution_fold vs)"

section \<open>Solution collectors\<close>

text \<open>
  \<^verbatim>\<open>
  void SolutionCollector::EnterSearch() {
    STLDeleteElements(&solutions_);
    STLDeleteElements(&recycle_solutions_);
    solutions_.clear();
    recycle_solutions_.clear();
    times_.clear();
    branches_.clear();
    failures_.clear();
    objective_values_.clear();
  }
  void FirstSolutionCollector::EnterSearch() {
    SolutionCollector::EnterSearch();
    done_ = false;
  }
  void BestValueSolutionCollector::EnterSearch() {
    SolutionCollector::EnterSearch();
    best_ = maximize_ ? kint64min : kint64max;
  }
  void SolutionCollector::PushSolution() {
    Assignment* new_sol = NULL;
    if (prototype_.get() != NULL) {
      if (!recycle_solutions_.empty()) {
        new_sol = recycle_solutions_.back();
        recycle_solutions_.pop_back();
      } else {
        new_sol = new Assignment(prototype_.get());
      }
      new_sol->Store();
    }
    Solver* const s = solver();
    solutions_.push_back(new_sol);
    times_.push_back(s->wall_time());
    branches_.push_back(s->branches());
    failures_.push_back(s->failures());
    if (new_sol != NULL) { objective_values_.push_back(new_sol->ObjectiveValue()); }
    else { objective_values_.push_back(0); }
  }
  void SolutionCollector::PopSolution() {
    if (!solutions_.empty()) {
      Assignment* popped = solutions_.back();
      solutions_.pop_back();
      if (popped != NULL) { recycle_solutions_.push_back(popped); }
      times_.pop_back(); branches_.pop_back(); failures_.pop_back();
      objective_values_.pop_back();
    }
  }
  void SolutionCollector::check_index(int n) const {
    CHECK_GE(n, 0) << "wrong index in solution getter";
    CHECK_LT(n, solutions_.size()) << "wrong index in solution getter";
  }
  bool FirstSolutionCollector::AtSolution() {
    if (!done_) { PushSolution(); done_ = true; }
    return false;
  }
  bool LastSolutionCollector::AtSolution() { PopSolution(); PushSolution(); return true; }
  bool BestValueSolutionCollector::AtSolution() {
    if (prototype_.get() != NULL) {
      const IntVar* objective = prototype_->Objective();
      if (objective != NULL) {
        if (maximize_ && objective->Max() > best_) {
          PopSolution(); PushSolution(); best_ = objective->Max();
        } else if (!maximize_ && objective->Min() < best_) {
          PopSolution(); PushSolution(); best_ = objective->Min();
        }
      }
    }
    return true;
  }
  bool AllSolutionCollector::AtSolution() { PushSolution(); return true; }
  \<close>
  The class Assignment is not in search.cc: the type of a stored assignment is the
  parameter \<open>'a\<close>, and what the solver's state makes of \<open>Store()\<close>, \<open>ObjectiveValue()\<close>
  and of the bounds of the prototype's objective (none when the prototype has no
  objective) comes with the \<open>solver_view\<close> of the hook. A NULL assignment is \<open>None\<close>.
  The vector \<open>times_\<close> is \<open>times_list\<close> and the flag \<open>done_\<close> is \<open>done_flag\<close>; the
  accessors \<open>wall_time(n)\<close>, \<open>branches(n)\<close> and \<open>failures(n)\<close> are \<open>wall_time_at\<close>,
  \<open>branches_at\<close> and \<open>failures_at\<close>.
  An accessor whose \<open>check_index\<close> fails aborts the program (\<open>None\<close>).
\<close>

record 'a solver_view = solver_counters +
  Store :: "'a \<Rightarrow> 'a"
  ObjectiveValue :: "'a \<Rightarrow> int64"
  objective_bounds :: "(int64 \<times> int64) option"

record 'a SolutionCollector =
  prototype :: "'a option"
  solutions :: "'a option list"
  recycle_solutions :: "'a list"
  times_list :: "int64 list"
  branches :: "int64 list"
  failures :: "int64 list"
  objective_values :: "int64 list"

definition new_SolutionCollector :: "'a option \<Rightarrow> 'a SolutionCollector" where
  "new_SolutionCollector a =
     \<lparr>prototype = a, solutions = [], recycle_solutions = [], times_list = [],
      branches = [], failures = [], objective_values = []\<rparr>"

definition SolutionCollector_EnterSearch ::
  "('a, 'z) SolutionCollector_scheme \<Rightarrow> ('a, 'z) SolutionCollector_scheme" where
  "SolutionCollector_EnterSearch c =
     c\<lparr>solutions := [], recycle_solutions := [], times_list := [], branches := [],
       failures := [], objective_values := []\<rparr>"

definition PushSolution ::
  "'a solver_view \<Rightarrow> ('a, 'z) SolutionCollector_scheme \<Rightarrow> ('a, 'z) SolutionCollector_scheme" where
  "PushSolution s c =
     (let (new_sol, rec) =
        (case prototype c of
           None \<Rightarrow> (None, recycle_solutions c)
         | Some p \<Rightarrow>
             (if recycle_solutions c \<noteq> []
              then (Some (Store s (last (recycle_solutions c))), butlast (recycle_solutions c))
              else (Some (Store s p), recycle_solutions c)))
      in c\<lparr>recycle_solutions := rec,
           solutions := solutions c @ [new_sol],
           times_list := times_list c @ [solver_wall_time s],
           branches := branches c @ [solver_branches s],
           failures := failures c @ [solver_failures s],
           objective_values := objective_values c @
             [case new_sol of Some a \<Rightarrow> ObjectiveValue s a | None \<Rightarrow> 0]\<rparr>)"

definition PopSolution ::
  "('a, 'z) SolutionCollector_scheme \<Rightarrow> ('a, 'z) SolutionCollector_scheme" where
  "PopSolution c =
     (if solutions c \<noteq> []
      then c\<lparr>solutions := butlast (solutions c),
             recycle_solutions :=
               (case last (solutions c) of
                  Some popped \<Rightarrow> recycle_solutions c @ [popped]
                | None \<Rightarrow> recycle_solutions c),
             times_list := butlast (times_list c),
             branches := butlast (branches c),
             failures := butlast (failures c),
             objective_values := butlast (objective_values c)\<rparr>
      else c)"

definition solution_count :: "('a, 'z) SolutionCollector_scheme \<Rightarrow> nat" where
  "solution_count c = length (solutions c)"

definition check_index :: "('a, 'z) SolutionCollector_scheme \<Rightarrow> int \<Rightarrow> bool" where
  "check_index c n \<longleftrightarrow> 0 \<le> n \<and> n < int (length (solutions c))"

definition solution :: "('a, 'z) SolutionCollector_scheme \<Rightarrow> int \<Rightarrow> 'a option option" where
  "solution c n = (if check_index c n then Some (solutions c ! nat n) else None)"

definition wall_time_at :: "('a, 'z) SolutionCollector_scheme \<Rightarrow> int \<Rightarrow> int64 option" where
  "wall_time_at c n = (if check_index c n then Some (times_list c ! nat n) else None)"

definition branches_at :: "('a, 'z) SolutionCollector_scheme \<Rightarrow> int \<Rightarrow> int64 option" where
  "branches_at c n = (if check_index c n then Some (branches c ! nat n) else None)"

definition failures_at :: "('a, 'z) SolutionCollector_scheme \<Rightarrow> int \<Rightarrow> int64 option" where
  "failures_at c n = (if check_index c n then Some (failures c ! nat n) else None)"

definition objective_value :: "('a, 'z) SolutionCollector_scheme \<Rightarrow> int \<Rightarrow> int64 option" where
  "objective_value c n = (if check_index c n then Some (objective_values c ! nat n) else None)"

record 'a FirstSolutionCollector = "'a SolutionCollector" +
  done_flag :: bool

definition new_FirstSolutionCollector :: "'a option \<Rightarrow> 'a FirstSolutionCollector" where
  "new_FirstSolutionCollector a =
     \<lparr>prototype = a, solutions = [], recycle_solutions = [], times_list = [],
      branches = [], failures = [], objective_values = [], done_flag = False\<rparr>"

definition FirstSolutionCollector_EnterSearch ::
  "'a FirstSolutionCollector \<Rightarrow> 'a FirstSolutionCollector" where
  "FirstSolutionCollector_EnterSearch c = (SolutionCollector_EnterSearch c)\<lparr>done_flag := False\<rparr>"

definition FirstSolutionCollector_AtSolution ::
  "'a solver_view \<Rightarrow> 'a FirstSolutionCollector \<Rightarrow> 'a FirstSolutionCollector \<times> bool" where
  "FirstSolutionCollector_AtSolution s c =
     (if \<not> done_flag c then ((PushSolution s c)\<lparr>done_flag := True\<rparr>, False) else (c, False))"

definition LastSolutionCollector_AtSolution ::
  "'a solver_view \<Rightarrow> 'a SolutionCollector \<Rightarrow> 'a SolutionCollector \<times> bool" where
  "LastSolutionCollector_AtSolution s c = (PushSolution s (PopSolution c), True)"

definition AllSolutionCollector_AtSolution ::
  "'a solver_view \<Rightarrow> 'a SolutionCollector \<Rightarrow> 'a SolutionCollector \<times> bool" where
  "AllSolutionCollector_AtSolution s c = (PushSolution s c, True)"

record 'a BestValueSolutionCollector = "'a SolutionCollector" +
  maximize :: bool
  best :: int64

definition new_BestValueSolutionCollector ::
  "'a option \<Rightarrow> bool \<Rightarrow> 'a BestValueSolutionCollector" where
  "new_BestValueSolutionCollector a mx =
     \<lparr>prototype = a, solutions = [], recycle_solutions = [], times_list = [],
      branches = [], failures = [], objective_values = [],
      maximize = mx, best = (if mx then kint64min else kint64max)\<rparr>"

definition BestValueSolutionCollector_EnterSearch ::
  "'a BestValueSolutionCollector \<Rightarrow> 'a BestValueSolutionCollector" where
  "BestValueSolutionCollector_EnterSearch c =
     (SolutionCollector_EnterSearch c)\<lparr>best := (if maximize c then kint64min else kint64max)\<rparr>"

definition BestValueSolutionCollector_AtSolution ::
  "'a solver_view \<Rightarrow> 'a BestValueSolutionCollector \<Rightarrow> 'a BestValueSolutionCollector \<times> bool" where
  "BestValueSolutionCollector_AtSolution s c =
     (case (prototype c, objective_bounds s) of
        (Some p, Some (omin, omax)) \<Rightarrow>
          (if maximize c \<and> sint (best c) < sint omax
           then ((PushSolution s (PopSolution c))\<lparr>best := omax\<rparr>, True)
           else if \<not> maximize c \<and> sint omin < sint (best c)
           then ((PushSolution s (PopSolution c))\<lparr>best := omin\<rparr>, True)
           else (c, True))
      | _ \<Rightarrow> (c, True))"

text \<open>
  A collector run over a trace of hooks, each with the solver's state at that moment.
  The collectors override EnterSearch and AtSolution only.
\<close>

fun FirstSolutionCollector_run ::
  "'a FirstSolutionCollector \<Rightarrow> (hook \<times> 'a solver_view) list \<Rightarrow> 'a FirstSolutionCollector" where
  "FirstSolutionCollector_run c [] = c"
| "FirstSolutionCollector_run c ((h, s) # tr) =
     FirstSolutionCollector_run
       (if h = EnterSearch then FirstSolutionCollector_EnterSearch c
        else if h = AtSolution then fst (FirstSolutionCollector_AtSolution s c)
        else c) tr"

fun LastSolutionCollector_run ::
  "'a SolutionCollector \<Rightarrow> (hook \<times> 'a solver_view) list \<Rightarrow> 'a SolutionCollector" where
  "LastSolutionCollector_run c [] = c"
| "LastSolutionCollector_run c ((h, s) # tr) =
     LastSolutionCollector_run
       (if h = EnterSearch then SolutionCollector_EnterSearch c
        else if h = AtSolution then fst (LastSolutionCollector_AtSolution s c)
        else c) tr"

fun AllSolutionCollector_run ::
  "'a SolutionCollector \<Rightarrow> (hook \<times> 'a solver_view) list \<Rightarrow> 'a SolutionCollector" where
  "AllSolutionCollector_run c [] = c"
| "AllSolutionCollector_run c ((h, s) # tr) =
     AllSolutionCollector_run
       (if h = EnterSearch then SolutionCollector_EnterSearch c
        else if h = AtSolution then fst (AllSolutionCollector_AtSolution s c)
        else c) tr"

fun BestValueSolutionCollector_run ::
  "'a BestValueSolutionCollector \<Rightarrow> (hook \<times> 'a solver_view) list \<Rightarrow> 'a BestValueSolutionCollector" where
  "BestValueSolutionCollector_run c [] = c"
| "BestValueSolutionCollector_run c ((h, s) # tr) =
     BestValueSolutionCollector_run
       (if h = EnterSearch then BestValueSolutionCollector_EnterSearch c
        else if h = AtSolution then fst (BestValueSolutionCollector_AtSolution s c)
        else c) tr"

section \<open>Search limits: RegularLimit\<close>

text \<open>
  \<^verbatim>\<open>
  void SearchLimit::EnterSearch() { crossed_ = false; Init(); }
  bool RegularLimit::Check() {
    Solver* const s = solver();
    // Warning limits might be kint64max, do not move the offset to the rhs
    return s->branches() - branches_offset_ > branches_ ||
        s->failures() - failures_offset_ > failures_ ||
        CheckTime() ||
        s->solutions() - solutions_offset_ >= solutions_;
  }
  void RegularLimit::Init() {
    Solver* const s = solver();
    branches_offset_ = s->branches();
    failures_offset_ = s->failures();
    wall_time_offset_ = s->wall_time();
    check_count_ = 0;
    next_check_ = 0;
    solutions_offset_ = s->solutions();
  }
  bool RegularLimit::CheckTime() {
    const int64 kMaxSkip = 100;
    const int64 kCheckWarmupIterations = 100;
    ++check_count_;
    if (wall_time_ != kint64max && next_check_ <= check_count_) {
      Solver* const s = solver();
      int64 time_delta = s->wall_time() -  wall_time_offset_;
      if (smart_time_check_ && check_count_ > kCheckWarmupIterations && time_delta > 0) {
        int64 approximate_calls = (wall_time_ * check_count_) / time_delta;
        next_check_ = check_count_ + std::min(kMaxSkip, approximate_calls);
      }
      return time_delta > wall_time_;
    } else {
      return false;
    }
  }
  \<close>
  All members are int64 and compared as signed. \<open>Check\<close> and \<open>CheckTime\<close> change the
  limit (\<open>check_count_\<close>, \<open>next_check_\<close>), so they return the new state with the answer;
  the \<open>||\<close> of \<open>Check\<close> stops at the first true operand, so \<open>CheckTime\<close> runs only when
  neither branches nor failures tripped. C++ division truncates toward zero (\<open>sdiv\<close>).
\<close>

record RegularLimit =
  crossed :: bool
  wall_time :: int64
  wall_time_offset :: int64
  check_count :: int64
  next_check :: int64
  smart_time_check :: bool
  branches :: int64
  branches_offset :: int64
  failures :: int64
  failures_offset :: int64
  solutions :: int64
  solutions_offset :: int64




definition int64_min :: "int64 \<Rightarrow> int64 \<Rightarrow> int64" where
  "int64_min a b = (if sint b < sint a then b else a)"








section \<open>Metaheuristics\<close>

text \<open>
  \<^verbatim>\<open>
  class Metaheuristic : public SearchMonitor {
    ...
    IntVar* const objective_;
    int64 step_;
    int64 current_;
    int64 best_;
    bool maximize_;
  };
  Metaheuristic::Metaheuristic(Solver* const solver, bool maximize, IntVar* objective, int64 step)
      : SearchMonitor(solver), objective_(objective), step_(step),
        current_(kint64max), best_(kint64max), maximize_(maximize) {}
  \<close>
  The objective variable belongs to the solver; what a hook reads from it (\<open>Min()\<close>,
  \<open>Max()\<close>, and \<open>Value()\<close> at a solution) is an \<open>objective_view\<close>.
\<close>

record Metaheuristic =
  step :: int64
  current :: int64
  best :: int64
  maximize :: bool

record objective_view =
  objective_Min :: int64
  objective_Max :: int64
  objective_Value :: int64

definition int64_max :: "int64 \<Rightarrow> int64 \<Rightarrow> int64" where
  "int64_max a b = (if sint a < sint b then b else a)"

section \<open>Simulated annealing\<close>

text \<open>
  \<^verbatim>\<open>
  SimulatedAnnealing::SimulatedAnnealing(Solver* const s, bool maximize, IntVar* objective,
                                         int64 step, int64 initial_temperature)
      : Metaheuristic(s, maximize, objective, step),
        temperature0_(initial_temperature), iteration_(0), rand_(654) {}
  void SimulatedAnnealing::EnterSearch() {
    if (maximize_) { best_ = objective_->Min(); } else { best_ = objective_->Max(); }
    current_ = best_;
  }
  bool SimulatedAnnealing::AtSolution() {
    const int64 val = objective_->Value();
    if (maximize_) { best_ = std::max(val, best_); } else { best_ = std::min(val, best_); }
    current_ = val;
    return true;
  }
  bool SimulatedAnnealing::LocalOptimum() {
    if (maximize_) { current_ = kint64min; } else { current_ = kint64max; }
    ++iteration_;
    return Temperature() > 0;
  }
  void SimulatedAnnealing::AcceptNeighbor() {
    if (iteration_ > 0) { ++iteration_; }
  }
  float SimulatedAnnealing::Temperature() const {
    if (iteration_ > 0) {
      return (1.0 * temperature0_) / iteration_;  // Cauchy annealing
    } else {
      return 0.;
    }
  }
  \<close>
  \<open>Temperature\<close> converts both integers to double, multiplies and divides in double and
  returns the quotient as a float. \<open>ApplyDecision\<close> posts a bound computed from
  \<open>Temperature()\<close> and a draw of the random generator \<open>rand_\<close>; it changes no member
  but that generator, which is left out of the record, and RefuteDecision (of
  Metaheuristic) changes none: both are among the hooks that leave the state as it is.
\<close>

record SimulatedAnnealing = Metaheuristic +
  temperature0 :: int64
  iteration :: int64

definition new_SimulatedAnnealing :: "bool \<Rightarrow> int64 \<Rightarrow> int64 \<Rightarrow> SimulatedAnnealing" where
  "new_SimulatedAnnealing mx st initial_temperature =
     \<lparr>step = st, current = kint64max, best = kint64max, maximize = mx,
      temperature0 = initial_temperature, iteration = 0\<rparr>"

definition SimulatedAnnealing_EnterSearch ::
  "objective_view \<Rightarrow> SimulatedAnnealing \<Rightarrow> SimulatedAnnealing" where
  "SimulatedAnnealing_EnterSearch ob m =
     (let b = (if maximize m then objective_Min ob else objective_Max ob)
      in m\<lparr>best := b, current := b\<rparr>)"

definition SimulatedAnnealing_AtSolution ::
  "objective_view \<Rightarrow> SimulatedAnnealing \<Rightarrow> SimulatedAnnealing \<times> bool" where
  "SimulatedAnnealing_AtSolution ob m =
     (let val = objective_Value ob
      in (m\<lparr>best := (if maximize m then int64_max val (best m) else int64_min val (best m)),
            current := val\<rparr>, True))"

definition Temperature :: "SimulatedAnnealing \<Rightarrow> real" where
  "Temperature m =
     (if 0 < sint (iteration m)
      then to_float (to_double (to_double (1 * int64_to_double (temperature0 m))
                                / int64_to_double (iteration m)))
      else to_float 0)"

definition SimulatedAnnealing_LocalOptimum ::
  "SimulatedAnnealing \<Rightarrow> SimulatedAnnealing \<times> bool" where
  "SimulatedAnnealing_LocalOptimum m =
     (let m1 = m\<lparr>current := (if maximize m then kint64min else kint64max)\<rparr>;
          m2 = m1\<lparr>iteration := iteration m1 + 1\<rparr>
      in (m2, 0 < Temperature m2))"

definition SimulatedAnnealing_AcceptNeighbor :: "SimulatedAnnealing \<Rightarrow> SimulatedAnnealing" where
  "SimulatedAnnealing_AcceptNeighbor m =
     (if 0 < sint (iteration m) then m\<lparr>iteration := iteration m + 1\<rparr> else m)"

definition SimulatedAnnealing_hook ::
  "hook \<Rightarrow> objective_view \<Rightarrow> SimulatedAnnealing \<Rightarrow> SimulatedAnnealing" where
  "SimulatedAnnealing_hook h ob m =
     (if h = EnterSearch then SimulatedAnnealing_EnterSearch ob m
      else if h = AtSolution then fst (SimulatedAnnealing_AtSolution ob m)
      else if h = LocalOptimum then fst (SimulatedAnnealing_LocalOptimum m)
      else if h = AcceptNeighbor then SimulatedAnnealing_AcceptNeighbor m
      else m)"

fun SimulatedAnnealing_run ::
  "SimulatedAnnealing \<Rightarrow> (hook \<times> objective_view) list \<Rightarrow> SimulatedAnnealing" where
  "SimulatedAnnealing_run m [] = m"
| "SimulatedAnnealing_run m ((h, ob) # tr) =
     SimulatedAnnealing_run (SimulatedAnnealing_hook h ob m) tr"

text \<open>
  The number of annealing steps of a trace of hooks: the LocalOptimum and AcceptNeighbor
  hooks from the first LocalOptimum on. \<open>steps_from started\<close> is the same count for a
  monitor that has (or has not) seen a LocalOptimum before the trace.
\<close>

definition annealing_steps :: "hook list \<Rightarrow> nat" where
  "annealing_steps hs =
     length (filter (\<lambda>h. h = LocalOptimum \<or> h = AcceptNeighbor)
               (dropWhile (\<lambda>h. h \<noteq> LocalOptimum) hs))"

definition steps_from :: "bool \<Rightarrow> hook list \<Rightarrow> nat" where
  "steps_from started hs =
     length (filter (\<lambda>h. h = LocalOptimum \<or> h = AcceptNeighbor)
               (if started then hs else dropWhile (\<lambda>h. h \<noteq> LocalOptimum) hs))"

text \<open>The count of claim C7, from its words: the LocalOptimum hooks alone.\<close>

definition LocalOptimum_count :: "hook list \<Rightarrow> nat" where
  "LocalOptimum_count hs = length (filter (\<lambda>h. h = LocalOptimum) hs)"

section \<open>Value selectors: RandomValueSelector\<close>

text \<open>
  \<^verbatim>\<open>
  int64 RandomValueSelector::Select(const IntVar* const v, int64 id) {
    const int64 span = v->Max() - v->Min() + 1;
    const int64 size = v->Size();
    Solver* const s = v->solver();
    if (size > span / 4) {  // Dense enough, we can try to find the value randomly.
      for (;;) {
        const int64 value = v->Min() + s->Rand64(span);
        if (v->Contains(value)) { return value; }
      }
    } else {  // Not dense enough, we will count.
      int64 index = s->Rand64(size);
      if (index <= size / 2) {
        for (int64 i = v->Min(); i <= v->Max(); ++i) {
          if (v->Contains(i)) { if (--index == 0) { return i; } }
        }
        CHECK_LE(index, 0);
      } else {
        for (int64 i = v->Max(); i > v->Min(); --i) {
          if (v->Contains(i)) { if (--index == 0) { return i; } }
        }
        CHECK_LE(index, 0);
      }
    }
    return 0LL;
  }
  \<close>
  The class IntVar is not in search.cc: a variable is the list of the values of its
  domain, with \<open>Min\<close>, \<open>Max\<close>, \<open>Size\<close> and \<open>Contains\<close> read off it. The values are
  mathematical integers (the overflow of \<open>span\<close> for a domain that spans more than
  int64 is not modelled). The successive results of \<open>Rand64\<close> are the list \<open>draws\<close>
  (\<open>Rand64(n)\<close> returns a number from 0 to \<open>n - 1\<close>). The rejection loop has no bound:
  on a list of draws of which none hits the domain it does not return
  (\<open>NeverReturns\<close>). A failed CHECK aborts the program (\<open>CheckFailed\<close>).
\<close>

record IntVar =
  domain_values :: "int list"

definition IntVar_Min :: "IntVar \<Rightarrow> int" where
  "IntVar_Min v = Min (set (domain_values v))"

definition IntVar_Max :: "IntVar \<Rightarrow> int" where
  "IntVar_Max v = Max (set (domain_values v))"

definition IntVar_Size :: "IntVar \<Rightarrow> int" where
  "IntVar_Size v = int (card (set (domain_values v)))"

definition IntVar_Contains :: "IntVar \<Rightarrow> int \<Rightarrow> bool" where
  "IntVar_Contains v k \<longleftrightarrow> k \<in> set (domain_values v)"

datatype select_error = NeverReturns | CheckFailed

fun sample_until_contained :: "IntVar \<Rightarrow> int list \<Rightarrow> select_error + int" where
  "sample_until_contained v [] = Inl NeverReturns"
| "sample_until_contained v (r # draws) =
     (let value = IntVar_Min v + r
      in if IntVar_Contains v value then Inr value else sample_until_contained v draws)"

function count_up :: "IntVar \<Rightarrow> int \<Rightarrow> int \<Rightarrow> int option \<times> int" where
  "count_up v i index =
     (if i \<le> IntVar_Max v
      then (if IntVar_Contains v i
            then (if index - 1 = 0 then (Some i, index - 1) else count_up v (i + 1) (index - 1))
            else count_up v (i + 1) index)
      else (None, index))"
  by pat_completeness auto
termination
  by (relation "measure (\<lambda>(v, i, index). nat (IntVar_Max v + 1 - i))") auto

function count_down :: "IntVar \<Rightarrow> int \<Rightarrow> int \<Rightarrow> int option \<times> int" where
  "count_down v i index =
     (if IntVar_Min v < i
      then (if IntVar_Contains v i
            then (if index - 1 = 0 then (Some i, index - 1) else count_down v (i - 1) (index - 1))
            else count_down v (i - 1) index)
      else (None, index))"
  by pat_completeness auto
termination
  by (relation "measure (\<lambda>(v, i, index). nat (i - IntVar_Min v))") auto

definition RandomValueSelector_Select :: "IntVar \<Rightarrow> int list \<Rightarrow> select_error + int" where
  "RandomValueSelector_Select v draws =
     (let span = IntVar_Max v - IntVar_Min v + 1;
          size = IntVar_Size v
      in if span div 4 < size
         then sample_until_contained v draws
         else (case draws of
                 [] \<Rightarrow> Inl NeverReturns
               | index # _ \<Rightarrow>
                   (case (if index \<le> size div 2
                          then count_up v (IntVar_Min v) index
                          else count_down v (IntVar_Max v) index) of
                      (Some i, _) \<Rightarrow> Inr i
                    | (None, index') \<Rightarrow> if index' \<le> 0 then Inr 0 else Inl CheckFailed)))"

declare count_up.simps [simp del] count_down.simps [simp del]

section \<open>Guided local search\<close>

subsection \<open>The penalties\<close>

text \<open>
  \<^verbatim>\<open>
  typedef pair<int64, int64> Arc;
  GuidedLocalSearchPenaltiesTable::GuidedLocalSearchPenaltiesTable(int size)
    : penalties_(size), has_values_(false) {}
  void GuidedLocalSearchPenaltiesTable::Increment(const Arc& arc) {
    vector<int64>& first_penalties = penalties_[arc.first];
    const int64 second = arc.second;
    if (second >= first_penalties.size()) { first_penalties.resize(second + 1, 0LL); }
    ++first_penalties[second];
    has_values_ = true;
  }
  int64 GuidedLocalSearchPenaltiesTable::Value(const Arc& arc) const {
    const vector<int64>& first_penalties = penalties_[arc.first];
    const int64 second = arc.second;
    if (second >= first_penalties.size()) { return 0LL; } else { return first_penalties[second]; }
  }
  GuidedLocalSearchPenaltiesMap::GuidedLocalSearchPenaltiesMap(int size)
    : penalized_(size, false) {}
  void GuidedLocalSearchPenaltiesMap::Increment(const Arc& arc) {
    ++penalties_[arc];
    penalized_.Set(arc.first, true);
  }
  int64 GuidedLocalSearchPenaltiesMap::Value(const Arc& arc) const {
    if (penalized_.Get(arc.first)) { return FindWithDefault(penalties_, arc, 0LL); }
    return 0LL;
  }
  \<close>
  The two implementations are the two constructors of one datatype. The comparison of
  the int64 \<open>second\<close> with a vector size is unsigned (\<open>unat\<close>). An index outside a
  vector or the bitmap is undefined behaviour (\<open>None\<close>). The hash map is a list of
  arcs with their penalties, the bitmap a list of booleans.
\<close>

type_synonym Arc = "int64 \<times> int64"

datatype GuidedLocalSearchPenalties =
    PenaltiesTable "int64 list list" bool
  | PenaltiesMap "bool list" "(Arc \<times> int64) list"

definition new_GuidedLocalSearchPenaltiesTable :: "nat \<Rightarrow> GuidedLocalSearchPenalties" where
  "new_GuidedLocalSearchPenaltiesTable n = PenaltiesTable (replicate n []) False"

definition new_GuidedLocalSearchPenaltiesMap :: "nat \<Rightarrow> GuidedLocalSearchPenalties" where
  "new_GuidedLocalSearchPenaltiesMap n = PenaltiesMap (replicate n False) []"

definition resize :: "nat \<Rightarrow> int64 list \<Rightarrow> int64 list" where
  "resize n row = take n row @ replicate (n - length row) 0"

fun HasValues :: "GuidedLocalSearchPenalties \<Rightarrow> bool" where
  "HasValues (PenaltiesTable penalties has_values) = has_values"
| "HasValues (PenaltiesMap penalized penalties) = (penalties \<noteq> [])"

fun Increment :: "Arc \<Rightarrow> GuidedLocalSearchPenalties \<Rightarrow> GuidedLocalSearchPenalties option" where
  "Increment arc (PenaltiesTable penalties has_values) =
     (if unat (fst arc) < length penalties
      then (let first_penalties = penalties ! unat (fst arc);
                second = snd arc;
                resized = (if length first_penalties \<le> unat second
                           then resize (unat (second + 1)) first_penalties
                           else first_penalties)
            in if unat second < length resized
               then Some (PenaltiesTable
                            (penalties[unat (fst arc) :=
                               resized[unat second := resized ! unat second + 1]])
                            True)
               else None)
      else None)"
| "Increment arc (PenaltiesMap penalized penalties) =
     (if unat (fst arc) < length penalized
      then Some (PenaltiesMap
                   (penalized[unat (fst arc) := True])
                   (case map_of penalties arc of
                      None \<Rightarrow> penalties @ [(arc, 1)]
                    | Some p \<Rightarrow>
                        map (\<lambda>(a, q). if a = arc then (a, q + 1) else (a, q)) penalties))
      else None)"

fun Value :: "GuidedLocalSearchPenalties \<Rightarrow> Arc \<Rightarrow> int64 option" where
  "Value (PenaltiesTable penalties has_values) arc =
     (if unat (fst arc) < length penalties
      then (let first_penalties = penalties ! unat (fst arc);
                second = snd arc
            in if length first_penalties \<le> unat second then Some 0
               else Some (first_penalties ! unat second))
      else None)"
| "Value (PenaltiesMap penalized penalties) arc =
     (if unat (fst arc) < length penalized
      then (if penalized ! unat (fst arc)
            then (case map_of penalties arc of Some p \<Rightarrow> Some p | None \<Rightarrow> Some 0)
            else Some 0)
      else None)"

subsection \<open>LocalOptimum\<close>

text \<open>
  \<^verbatim>\<open>
  // Penalize all the most expensive arcs (var, value) according to their utility:
  // utility(i, j) = cost(i, j) / (1 + penalty(i, j))
  bool GuidedLocalSearch::LocalOptimum() {
    vector<pair<Arc, double> > utility(size_);
    for (int i = 0; i < size_; ++i) {
      const int64 var_value = assignment_.Value(vars_[i]);
      const int64 value =
          (var_value != i) ? AssignmentPenalty(assignment_, i, var_value) : 0;
      const Arc arc(i, var_value);
      const int64 penalty = penalties_->Value(arc);
      utility[i] = pair<Arc, double>(arc, value / (penalty + 1.0));
    }
    Comparator comparator;    // i.second > j.second
    std::sort(utility.begin(), utility.end(), comparator);
    int64 utility_value = utility[0].second;
    penalties_->Increment(utility[0].first);
    for (int i = 1; i < utility.size() && utility_value == utility[i].second; ++i) {
      penalties_->Increment(utility[i].first);
    }
    if (maximize_) { current_ = kint64min; } else { current_ = kint64max; }
    return true;
  }
  \<close>
  Of the members of GuidedLocalSearch, LocalOptimum reads the values that the stored
  assignment gives to \<open>vars_\<close> (the list \<open>assignment\<close>, of length \<open>size_\<close>) and the
  penalties, and writes the penalties and \<open>current_\<close>; the record keeps these beside
  the members of Metaheuristic. \<open>AssignmentPenalty\<close> is virtual: it is a parameter,
  given below for the binary and the ternary subclass.

  \<open>utility_value\<close> is an int64: the initialisation converts the double
  \<open>utility[0].second\<close> to int64, and the comparison in the loop converts it back.
  With no variable, \<open>utility[0]\<close> is outside the vector (\<open>None\<close>).
  \<open>std::sort\<close> leaves the order of elements with equal keys unspecified; \<open>std_sort\<close>
  is one such order (the stable one), and \<open>penalize_sorted\<close>, the part of LocalOptimum
  after the sort, can be run on any other.
\<close>

record GuidedLocalSearch = Metaheuristic +
  assignment :: "int64 list"
  penalties :: GuidedLocalSearchPenalties

definition utility_of ::
  "(int64 \<Rightarrow> int64 \<Rightarrow> int64) \<Rightarrow> GuidedLocalSearch \<Rightarrow> nat \<Rightarrow> (Arc \<times> real) option" where
  "utility_of AssignmentPenalty g i =
     (let var_value = assignment g ! i;
          value = (if var_value \<noteq> word_of_nat i then AssignmentPenalty (word_of_nat i) var_value
                   else 0);
          arc = (word_of_nat i, var_value)
      in case Value (penalties g) arc of
           None \<Rightarrow> None
         | Some penalty \<Rightarrow>
             Some (arc, to_double (int64_to_double value / to_double (int64_to_double penalty + 1))))"

fun those_all :: "'a option list \<Rightarrow> 'a list option" where
  "those_all [] = Some []"
| "those_all (x # xs) =
     (case x of None \<Rightarrow> None
      | Some y \<Rightarrow> (case those_all xs of None \<Rightarrow> None | Some ys \<Rightarrow> Some (y # ys)))"

fun increment_ties ::
  "int64 \<Rightarrow> (Arc \<times> real) list \<Rightarrow> GuidedLocalSearchPenalties \<Rightarrow> GuidedLocalSearchPenalties option" where
  "increment_ties utility_value [] p = Some p"
| "increment_ties utility_value (u # us) p =
     (if int64_to_double utility_value = snd u
      then (case Increment (fst u) p of
              None \<Rightarrow> None
            | Some p' \<Rightarrow> increment_ties utility_value us p')
      else Some p)"

definition penalize_sorted ::
  "(Arc \<times> real) list \<Rightarrow> GuidedLocalSearch \<Rightarrow> (GuidedLocalSearch \<times> bool) option" where
  "penalize_sorted utility g =
     (case utility of
        [] \<Rightarrow> None
      | u0 # us \<Rightarrow>
          (let utility_value = double_to_int64 (snd u0)
           in case Increment (fst u0) (penalties g) of
                None \<Rightarrow> None
              | Some p \<Rightarrow>
                  (case increment_ties utility_value us p of
                     None \<Rightarrow> None
                   | Some p' \<Rightarrow>
                       Some (g\<lparr>penalties := p',
                               current := (if maximize g then kint64min else kint64max)\<rparr>,
                             True))))"

definition std_sort :: "(Arc \<times> real) list \<Rightarrow> (Arc \<times> real) list" where
  "std_sort utility = sort_key (\<lambda>u. - snd u) utility"

definition GuidedLocalSearch_LocalOptimum ::
  "(int64 \<Rightarrow> int64 \<Rightarrow> int64) \<Rightarrow> GuidedLocalSearch \<Rightarrow> (GuidedLocalSearch \<times> bool) option" where
  "GuidedLocalSearch_LocalOptimum AssignmentPenalty g =
     (case those_all (map (utility_of AssignmentPenalty g) [0..<length (assignment g)]) of
        None \<Rightarrow> None
      | Some utility \<Rightarrow> penalize_sorted (std_sort utility) g)"

definition BinaryGuidedLocalSearch_AssignmentPenalty ::
  "(int64 \<Rightarrow> int64 \<Rightarrow> int64) \<Rightarrow> int64 \<Rightarrow> int64 \<Rightarrow> int64" where
  "BinaryGuidedLocalSearch_AssignmentPenalty objective_function index nxt =
     objective_function index nxt"

definition TernaryGuidedLocalSearch_AssignmentPenalty ::
  "(int64 \<Rightarrow> int64 \<Rightarrow> int64 \<Rightarrow> int64) \<Rightarrow> int64 list \<Rightarrow> int64 \<Rightarrow> int64 \<Rightarrow> int64" where
  "TernaryGuidedLocalSearch_AssignmentPenalty objective_function secondary_values index nxt =
     objective_function index nxt (secondary_values ! unat index)"

section \<open>Tabu search\<close>

subsection \<open>The constraints a monitor posts\<close>

text \<open>
  Modelled from the spec: the variables, expressions and constraints that the solver's
  factories build (MakeBoolVar, MakeSum, MakeIsEqualCstCt, MakeIsDifferentCstCt,
  MakeIsGreaterOrEqualCstCt, MakeIsLessOrEqualCstCt, MakeGreaterOrEqual,
  MakeLessOrEqual, MakeNonEquality), which are not in search.cc. The spec (4.6.1) reads
  the \<open>Is...CstCt\<close> constraints as boolean literals (\<open>var == keep_value\<close>,
  \<open>var \<noteq> forbid_value\<close>, \<open>objective \<ge> best + step\<close>): the boolean variable is 1 when
  the comparison holds and 0 when it does not. The constant of each factory is an int64,
  as at the calls that pass \<open>best_ + step_\<close>, \<open>(*it).value_\<close> and \<open>1LL\<close>. A variable is
  the objective, a tracked variable (by its number) or a boolean variable made by
  MakeBoolVar (numbered in the order of creation). \<open>holds \<rho> c\<close> says that the values
  \<open>\<rho>\<close> of the variables satisfy \<open>c\<close>.
\<close>

datatype variable = Objective | Var nat | BoolVar nat

datatype expr = V variable | Sum "variable list"

datatype constraint =
    IsGreaterOrEqualCstCt expr int64 variable
  | IsLessOrEqualCstCt expr int64 variable
  | IsEqualCstCt expr int64 variable
  | IsDifferentCstCt expr int64 variable
  | GreaterOrEqual expr int64
  | LessOrEqual expr int64
  | NonEquality expr int64

fun eval :: "(variable \<Rightarrow> int) \<Rightarrow> expr \<Rightarrow> int" where
  "eval \<rho> (V v) = \<rho> v"
| "eval \<rho> (Sum vs) = sum_list (map \<rho> vs)"

definition truth :: "bool \<Rightarrow> int" where
  "truth b = (if b then 1 else 0)"

fun holds :: "(variable \<Rightarrow> int) \<Rightarrow> constraint \<Rightarrow> bool" where
  "holds \<rho> (IsGreaterOrEqualCstCt e c b) \<longleftrightarrow> \<rho> b = truth (sint c \<le> eval \<rho> e)"
| "holds \<rho> (IsLessOrEqualCstCt e c b) \<longleftrightarrow> \<rho> b = truth (eval \<rho> e \<le> sint c)"
| "holds \<rho> (IsEqualCstCt e c b) \<longleftrightarrow> \<rho> b = truth (eval \<rho> e = sint c)"
| "holds \<rho> (IsDifferentCstCt e c b) \<longleftrightarrow> \<rho> b = truth (eval \<rho> e \<noteq> sint c)"
| "holds \<rho> (GreaterOrEqual e c) \<longleftrightarrow> sint c \<le> eval \<rho> e"
| "holds \<rho> (LessOrEqual e c) \<longleftrightarrow> eval \<rho> e \<le> sint c"
| "holds \<rho> (NonEquality e c) \<longleftrightarrow> eval \<rho> e \<noteq> sint c"

subsection \<open>TabuSearch::ApplyDecision\<close>

text \<open>
  \<^verbatim>\<open>
  void TabuSearch::ApplyDecision(Decision* const d) {
    Solver* const s = solver();
    if (d == s->balancing_decision()) { return; }
    IntVar* aspiration = s->MakeBoolVar();
    if (maximize_) {
      s->AddConstraint(s->MakeIsGreaterOrEqualCstCt(objective_, best_ + step_, aspiration));
    } else {
      s->AddConstraint(s->MakeIsLessOrEqualCstCt(objective_, best_ - step_, aspiration));
    }
    vector<IntVar*> tabu_vars;
    for (ConstIter<list<VarValue> > it(keep_tabu_list_); !it.at_end(); ++it) {
      IntVar* tabu_var = s->MakeBoolVar();
      Constraint* keep_cst = s->MakeIsEqualCstCt((*it).var_, (*it).value_, tabu_var);
      s->AddConstraint(keep_cst);
      tabu_vars.push_back(tabu_var);
    }
    for (ConstIter<list<VarValue> > it(forbid_tabu_list_); !it.at_end(); ++it) {
      IntVar* tabu_var = s->MakeBoolVar();
      Constraint* forbid_cst = s->MakeIsDifferentCstCt((*it).var_, (*it).value_, tabu_var);
      s->AddConstraint(forbid_cst);
      tabu_vars.push_back(tabu_var);
    }
    if (tabu_vars.size() > 0) {
      IntVar* tabu = s->MakeBoolVar();
      s->AddConstraint(s->MakeIsGreaterOrEqualCstCt(s->MakeSum(tabu_vars)->Var(),
                                                    tabu_vars.size() * tabu_factor_, tabu));
      s->AddConstraint(s->MakeGreaterOrEqual(s->MakeSum(aspiration, tabu), 1LL));
    }
    if (maximize_) {
      s->AddConstraint(s->MakeGreaterOrEqual(objective_, current_ + step_));
    } else {
      s->AddConstraint(s->MakeLessOrEqual(objective_, current_ - step_));
    }
    s->AddConstraint(s->MakeNonEquality(objective_, last_));
  }
  \<close>
  The members \<open>value_\<close> of VarValue and \<open>last_\<close> of TabuSearch are \<open>value_v\<close> and
  \<open>last_v\<close>. ApplyDecision changes no member: it returns the constraints it adds, in
  order, and the number of the next fresh boolean variable, given that number \<open>k\<close> at
  the call. The threshold \<open>tabu_vars.size() * tabu_factor_\<close> is a product of doubles
  passed for an int64: it is converted, that is, truncated.
\<close>

record VarValue =
  var :: nat
  value_v :: int64
  stamp :: int64

record TabuSearch = Metaheuristic +
  last_v :: int64
  keep_tabu_list :: "VarValue list"
  keep_tenure :: int64
  forbid_tabu_list :: "VarValue list"
  forbid_tenure :: int64
  tabu_factor :: real
  stamp :: int64

definition fresh_bool_vars :: "nat \<Rightarrow> nat \<Rightarrow> variable list" where
  "fresh_bool_vars k n = map BoolVar [k..<k + n]"

definition tabu_literals ::
  "(VarValue \<Rightarrow> variable \<Rightarrow> constraint) \<Rightarrow> VarValue list \<Rightarrow> nat \<Rightarrow> constraint list" where
  "tabu_literals mk es k = map2 mk es (fresh_bool_vars k (length es))"

definition keep_cst :: "VarValue \<Rightarrow> variable \<Rightarrow> constraint" where
  "keep_cst e tabu_var = IsEqualCstCt (V (Var (var e))) (value_v e) tabu_var"

definition forbid_cst :: "VarValue \<Rightarrow> variable \<Rightarrow> constraint" where
  "forbid_cst e tabu_var = IsDifferentCstCt (V (Var (var e))) (value_v e) tabu_var"

definition tabu_threshold :: "TabuSearch \<Rightarrow> int64" where
  "tabu_threshold m =
     double_to_int64
       (to_double (to_double (real (length (keep_tabu_list m) + length (forbid_tabu_list m)))
                   * tabu_factor m))"

definition TabuSearch_ApplyDecision ::
  "bool \<Rightarrow> nat \<Rightarrow> TabuSearch \<Rightarrow> constraint list \<times> nat" where
  "TabuSearch_ApplyDecision is_balancing_decision k m =
     (if is_balancing_decision then ([], k)
      else
        (let aspiration = BoolVar k;
             aspiration_ct =
               (if maximize m
                then IsGreaterOrEqualCstCt (V Objective) (best m + step m) aspiration
                else IsLessOrEqualCstCt (V Objective) (best m - step m) aspiration);
             nk = length (keep_tabu_list m);
             nf = length (forbid_tabu_list m);
             keep_cts = tabu_literals keep_cst (keep_tabu_list m) (k + 1);
             forbid_cts = tabu_literals forbid_cst (forbid_tabu_list m) (k + 1 + nk);
             tabu_vars = fresh_bool_vars (k + 1) (nk + nf);
             tabu = BoolVar (k + 1 + nk + nf);
             tabu_cts =
               (if tabu_vars \<noteq> []
                then [IsGreaterOrEqualCstCt (Sum tabu_vars) (tabu_threshold m) tabu,
                      GreaterOrEqual (Sum [aspiration, tabu]) 1]
                else []);
             descent =
               (if maximize m then GreaterOrEqual (V Objective) (current m + step m)
                else LessOrEqual (V Objective) (current m - step m));
             plateau = NonEquality (V Objective) (last_v m)
         in ([aspiration_ct] @ keep_cts @ forbid_cts @ tabu_cts @ [descent, plateau],
             (if tabu_vars \<noteq> [] then k + 2 + nk + nf else k + 1 + nk + nf))))"

subsection \<open>What the constraints say\<close>

text \<open>
  The vocabulary of claim C4: the number of entries of both lists, the tabu literals
  that the values \<open>\<rho>\<close> satisfy, the aspiration literal \<open>objective \<ge> best + step\<close>
  (\<open>objective \<le> best - step\<close> when minimizing) and the strict descent from \<open>current_\<close>,
  \<open>objective \<ge> current + step\<close> (\<open>objective \<le> current - step\<close>), with the sums and
  differences taken over the integers. The constraints posted are satisfiable at \<open>\<rho>\<close>
  when the boolean variables can be given values so that all hold (\<open>\<rho>\<close> gives the
  values of the objective and of the tracked variables).
\<close>

definition tabu_entries :: "TabuSearch \<Rightarrow> nat" where
  "tabu_entries m = length (keep_tabu_list m) + length (forbid_tabu_list m)"

definition keep_satisfied :: "(variable \<Rightarrow> int) \<Rightarrow> VarValue \<Rightarrow> bool" where
  "keep_satisfied \<rho> e \<longleftrightarrow> \<rho> (Var (var e)) = sint (value_v e)"

definition forbid_satisfied :: "(variable \<Rightarrow> int) \<Rightarrow> VarValue \<Rightarrow> bool" where
  "forbid_satisfied \<rho> e \<longleftrightarrow> \<rho> (Var (var e)) \<noteq> sint (value_v e)"

definition satisfied_literals :: "(variable \<Rightarrow> int) \<Rightarrow> TabuSearch \<Rightarrow> nat" where
  "satisfied_literals \<rho> m =
     length (filter (keep_satisfied \<rho>) (keep_tabu_list m)) +
     length (filter (forbid_satisfied \<rho>) (forbid_tabu_list m))"

definition aspiration_holds :: "(variable \<Rightarrow> int) \<Rightarrow> TabuSearch \<Rightarrow> bool" where
  "aspiration_holds \<rho> m \<longleftrightarrow>
     (if maximize m then sint (best m) + sint (step m) \<le> \<rho> Objective
      else \<rho> Objective \<le> sint (best m) - sint (step m))"

definition descent_holds :: "(variable \<Rightarrow> int) \<Rightarrow> TabuSearch \<Rightarrow> bool" where
  "descent_holds \<rho> m \<longleftrightarrow>
     (if maximize m then sint (current m) + sint (step m) \<le> \<rho> Objective
      else \<rho> Objective \<le> sint (current m) - sint (step m))"

definition posted_satisfiable :: "(variable \<Rightarrow> int) \<Rightarrow> constraint list \<Rightarrow> bool" where
  "posted_satisfiable \<rho> cs \<longleftrightarrow>
     (\<exists>\<beta>. list_all (holds (\<lambda>v. case v of BoolVar j \<Rightarrow> \<beta> j | _ \<Rightarrow> \<rho> v)) cs)"

definition extend :: "(variable \<Rightarrow> int) \<Rightarrow> (nat \<Rightarrow> int) \<Rightarrow> variable \<Rightarrow> int" where
  "extend \<rho> \<beta> = (\<lambda>v. case v of BoolVar j \<Rightarrow> \<beta> j | _ \<Rightarrow> \<rho> v)"

text \<open>
  What the posted constraints say of a valuation of all variables, with the int64
  constants that the code computes: the sums \<open>best_ + step_\<close> and \<open>current_ + step_\<close>
  (the differences when minimizing) wrap around, and the threshold is the converted
  product.
\<close>

definition aspiration_posted :: "(variable \<Rightarrow> int) \<Rightarrow> TabuSearch \<Rightarrow> bool" where
  "aspiration_posted \<rho> m \<longleftrightarrow>
     (if maximize m then sint (best m + step m) \<le> \<rho> Objective
      else \<rho> Objective \<le> sint (best m - step m))"

definition descent_posted :: "(variable \<Rightarrow> int) \<Rightarrow> TabuSearch \<Rightarrow> bool" where
  "descent_posted \<rho> m \<longleftrightarrow>
     (if maximize m then sint (current m + step m) \<le> \<rho> Objective
      else \<rho> Objective \<le> sint (current m - step m))"

definition tabu_condition :: "(variable \<Rightarrow> int) \<Rightarrow> TabuSearch \<Rightarrow> bool" where
  "tabu_condition \<rho> m \<longleftrightarrow>
     (sint (tabu_threshold m) \<le> int (satisfied_literals \<rho> m) \<or> aspiration_posted \<rho> m) \<and>
     descent_posted \<rho> m \<and> \<rho> Objective \<noteq> sint (last_v m)"

text \<open>The values of the boolean variables that the constraints force.\<close>

definition tabu_bools :: "(variable \<Rightarrow> int) \<Rightarrow> nat \<Rightarrow> TabuSearch \<Rightarrow> nat \<Rightarrow> int" where
  "tabu_bools \<rho> k m j =
     (let nk = length (keep_tabu_list m); nf = length (forbid_tabu_list m)
      in if j = k then truth (aspiration_posted \<rho> m)
         else if j < k + 1 + nk then truth (keep_satisfied \<rho> (keep_tabu_list m ! (j - (k + 1))))
         else if j < k + 1 + nk + nf
           then truth (forbid_satisfied \<rho> (forbid_tabu_list m ! (j - (k + 1 + nk))))
         else truth (sint (tabu_threshold m) \<le> int (satisfied_literals \<rho> m)))"

chapter \<open>Properties\<close>

section \<open>Rounding\<close>

lemma rne_of_int [simp]: "rne (of_int n) = n"
  by (simp add: rne_def)

lemma rne_ge: "of_int n \<le> y \<Longrightarrow> n \<le> rne y"
proof -
  assume "of_int n \<le> y"
  then have "n \<le> \<lfloor>y\<rfloor>" by (simp add: le_floor_iff)
  then show ?thesis by (auto simp: rne_def Let_def)
qed

lemma rne_le: "y \<le> of_int n \<Longrightarrow> rne y \<le> n"
proof (cases "y = of_int n")
  case True
  then show ?thesis by simp
next
  case False
  assume "y \<le> of_int n"
  with False have "y < of_int n" by simp
  then have "\<lfloor>y\<rfloor> < n" by (simp add: floor_less_iff)
  then show ?thesis by (auto simp: rne_def Let_def)
qed

lemma two_powr_int: "(2::real) powr of_int k = 2 powi k"
  by (rule powr_real_of_int') simp_all

lemma floor_log2_ge:
  assumes "2 powi k \<le> x"
  shows "k \<le> \<lfloor>log 2 x\<rfloor>"
proof -
  have "0 < (2::real) powi k" by simp
  with assms have x: "0 < x" by linarith
  from assms have "of_int k \<le> log 2 x"
    by (simp add: le_log_iff[OF _ x] two_powr_int)
  then show ?thesis by (simp add: le_floor_iff)
qed

lemma powi_floor_log2_le:
  assumes "0 < x"
  shows "2 powi \<lfloor>log 2 x\<rfloor> \<le> x"
proof -
  have "of_int \<lfloor>log 2 x\<rfloor> \<le> log 2 x" by simp
  then have "2 powr (of_int \<lfloor>log 2 x\<rfloor>) \<le> x"
    by (simp add: le_log_iff[OF _ assms, symmetric])
  then show ?thesis by (simp add: two_powr_int)
qed

lemma floor_log2_less:
  assumes "0 < x" "x < 2 powi k"
  shows "\<lfloor>log 2 x\<rfloor> < k"
proof -
  from assms have "log 2 x < of_int k"
    by (simp add: log_less_iff two_powr_int)
  then show ?thesis by (simp add: floor_less_iff)
qed

lemma fp_round_nonpos:
  assumes "x \<le> 0"
  shows "fp_round p emin x \<le> 0"
proof (cases "x = 0")
  case True
  then show ?thesis by (simp add: fp_round_def)
next
  case False
  define ulp :: real where "ulp = 2 powi (max \<lfloor>log 2 \<bar>x\<bar>\<rfloor> emin - int p + 1)"
  have ulp: "0 < ulp" by (simp add: ulp_def)
  with assms have "x / ulp \<le> of_int 0" by (simp add: divide_nonpos_pos)
  then have "rne (x / ulp) \<le> 0" by (rule rne_le)
  then have "of_int (rne (x / ulp)) * ulp \<le> 0"
    using ulp by (simp add: mult_le_0_iff)
  with False show ?thesis by (simp add: fp_round_def Let_def ulp_def)
qed

lemma fp_round_ge_powi:
  assumes "2 powi k \<le> x" "emin \<le> k" "0 < p"
  shows "2 powi k \<le> fp_round p emin x"
proof -
  have "0 < (2::real) powi k" by simp
  with assms(1) have x: "0 < x" by linarith
  define e where "e = max \<lfloor>log 2 \<bar>x\<bar>\<rfloor> emin"
  define ulp :: real where "ulp = 2 powi (e - int p + 1)"
  have unfold: "fp_round p emin x = of_int (rne (x / ulp)) * ulp"
    using x by (simp add: fp_round_def Let_def e_def ulp_def)
  have kl: "k \<le> \<lfloor>log 2 \<bar>x\<bar>\<rfloor>" using floor_log2_ge[OF assms(1)] x by simp
  with assms(2) have emax: "e = \<lfloor>log 2 \<bar>x\<bar>\<rfloor>" by (simp add: e_def)
  from kl have ke: "k \<le> e" by (simp add: emax)
  have ulp: "0 < ulp" by (simp add: ulp_def)
  have ex: "2 powi e \<le> x" using powi_floor_log2_le[OF x] x by (simp add: emax)
  have split: "(2::real) powi e = 2 ^ (p - 1) * ulp"
  proof -
    have "(2::real) powi e = 2 powi (int (p - 1) + (e - int p + 1))"
      using assms(3) by (simp add: algebra_simps of_nat_diff)
    also have "\<dots> = 2 powi int (p - 1) * 2 powi (e - int p + 1)"
      by (rule power_int_add) simp
    finally show ?thesis by (simp add: ulp_def)
  qed
  from ex have "2 ^ (p - 1) \<le> x / ulp"
    using ulp by (simp add: split pos_le_divide_eq)
  then have "of_int (2 ^ (p - 1)) \<le> x / ulp" by simp
  then have "2 ^ (p - 1) \<le> rne (x / ulp)" by (rule rne_ge)
  then have "(2::real) ^ (p - 1) \<le> of_int (rne (x / ulp))"
    by (metis of_int_le_iff of_int_numeral of_int_power)
  then have "2 ^ (p - 1) * ulp \<le> of_int (rne (x / ulp)) * ulp"
    using ulp by (simp add: mult_le_cancel_right)
  then have "2 powi e \<le> fp_round p emin x"
    by (simp add: unfold split)
  moreover have "(2::real) powi k \<le> 2 powi e"
    using ke by (intro power_int_increasing) simp_all
  ultimately show ?thesis by linarith
qed

lemma fp_round_le_powi:
  assumes "0 < x" "x \<le> 2 powi k" "emin \<le> k" "0 < p"
  shows "fp_round p emin x \<le> 2 powi k"
proof -
  define e where "e = max \<lfloor>log 2 \<bar>x\<bar>\<rfloor> emin"
  define ulp :: real where "ulp = 2 powi (e - int p + 1)"
  have unfold: "fp_round p emin x = of_int (rne (x / ulp)) * ulp"
    using assms(1) by (simp add: fp_round_def Let_def e_def ulp_def)
  have ulp: "0 < ulp" by (simp add: ulp_def)
  have "\<lfloor>log 2 \<bar>x\<bar>\<rfloor> \<le> k"
  proof (cases "x = 2 powi k")
    case True
    then show ?thesis by (simp add: log_def two_powr_int[symmetric] powr_def)
  next
    case False
    with assms(2) have "x < 2 powi k" by simp
    from floor_log2_less[OF assms(1) this] assms(1) show ?thesis by simp
  qed
  with assms(3) have ek: "e \<le> k" by (simp add: e_def)
  define d where "d = nat (k - e + int p - 1)"
  have d: "int d = k - e + int p - 1" using ek assms(4) by (simp add: d_def)
  have split: "(2::real) powi k = 2 ^ d * ulp"
  proof -
    have "(2::real) powi k = 2 powi (int d + (e - int p + 1))"
      by (simp add: d)
    also have "\<dots> = 2 powi int d * 2 powi (e - int p + 1)"
      by (rule power_int_add) simp
    finally show ?thesis by (simp add: ulp_def)
  qed
  from assms(2) have "x / ulp \<le> 2 ^ d"
    using ulp by (simp add: split pos_divide_le_eq)
  then have "x / ulp \<le> of_int (2 ^ d)" by simp
  then have "rne (x / ulp) \<le> 2 ^ d" by (rule rne_le)
  then have "of_int (rne (x / ulp)) \<le> (2::real) ^ d"
    by (metis of_int_le_iff of_int_numeral of_int_power)
  then have "of_int (rne (x / ulp)) * ulp \<le> 2 ^ d * ulp"
    using ulp by (simp add: mult_le_cancel_right)
  then show ?thesis
    by (simp add: unfold split)
qed

lemma fp_round_exact:
  assumes "x = of_int m * 2 powi j" "\<bar>m\<bar> < 2 ^ p" "emin - int p + 1 \<le> j" "0 < p"
  shows "fp_round p emin x = x"
proof (cases "m = 0")
  case True
  with assms(1) show ?thesis by (simp add: fp_round_def)
next
  case False
  then have x0: "x \<noteq> 0" using assms(1) by simp
  define e where "e = max \<lfloor>log 2 \<bar>x\<bar>\<rfloor> emin"
  define ulp :: real where "ulp = 2 powi (e - int p + 1)"
  have unfold: "fp_round p emin x = of_int (rne (x / ulp)) * ulp"
    using x0 by (simp add: fp_round_def Let_def e_def ulp_def)
  have ulp: "0 < ulp" by (simp add: ulp_def)
  have absx: "\<bar>x\<bar> = of_int \<bar>m\<bar> * 2 powi j"
    by (simp add: assms(1) abs_mult)
  have "of_int \<bar>m\<bar> < (2::real) ^ p"
    using assms(2) by (metis of_int_less_iff of_int_numeral of_int_power)
  then have "\<bar>x\<bar> < 2 ^ p * 2 powi j"
    by (simp add: absx)
  also have "(2::real) ^ p * 2 powi j = 2 powi (int p + j)"
    by (simp add: power_int_add)
  finally have "\<lfloor>log 2 \<bar>x\<bar>\<rfloor> < int p + j"
    using x0 by (intro floor_log2_less) simp_all
  with assms(3) have ej: "e - int p + 1 \<le> j" by (simp add: e_def)
  define d where "d = nat (j - (e - int p + 1))"
  have d: "int d = j - (e - int p + 1)" using ej by (simp add: d_def)
  have split: "(2::real) powi j = 2 ^ d * ulp"
  proof -
    have "(2::real) powi j = 2 powi (int d + (e - int p + 1))"
      by (simp add: d)
    also have "\<dots> = 2 powi int d * 2 powi (e - int p + 1)"
      by (rule power_int_add) simp
    finally show ?thesis by (simp add: ulp_def)
  qed
  have "x / ulp = of_int (m * 2 ^ d)"
    using ulp by (simp add: assms(1) split)
  then have r: "rne (x / ulp) = m * 2 ^ d" by (simp only: rne_of_int)
  have "fp_round p emin x = of_int (m * 2 ^ d) * ulp" by (simp only: unfold r)
  also have "\<dots> = of_int m * (2 ^ d * ulp)" by simp
  also have "\<dots> = x" by (simp only: assms(1) split)
  finally show ?thesis .
qed

lemma to_double_exact:
  "x = of_int m * 2 powi j \<Longrightarrow> \<bar>m\<bar> < 2 ^ 53 \<Longrightarrow> - 1074 \<le> j \<Longrightarrow> to_double x = x"
  unfolding to_double_def by (rule fp_round_exact[where m = m and j = j]) simp_all

lemma to_float_exact:
  "x = of_int m * 2 powi j \<Longrightarrow> \<bar>m\<bar> < 2 ^ 24 \<Longrightarrow> - 149 \<le> j \<Longrightarrow> to_float x = x"
  unfolding to_float_def by (rule fp_round_exact[where m = m and j = j]) simp_all

lemma to_double_int: "\<bar>m\<bar> < 2 ^ 53 \<Longrightarrow> to_double (of_int m) = of_int m"
  by (rule to_double_exact[where m = m and j = 0]) simp_all

text \<open>Some numbers that a double holds exactly.\<close>

lemma to_double_0: "to_double 0 = 0"
  by (simp add: to_double_def fp_round_def)

lemma to_double_1: "to_double 1 = 1"
  using to_double_int[of 1] by simp

lemma to_double_2: "to_double 2 = 2"
  using to_double_int[of 2] by simp

lemma to_double_3: "to_double 3 = 3"
  using to_double_int[of 3] by simp

lemma to_double_5: "to_double 5 = 5"
  using to_double_int[of 5] by simp

lemma to_double_half: "to_double (1 / 2) = 1 / 2"
  by (rule to_double_exact[where m = 1 and j = "-1"]) simp_all

lemma to_double_3_2: "to_double (3 / 2) = 3 / 2"
  by (rule to_double_exact[where m = 3 and j = "-1"]) simp_all

lemma to_double_5_2: "to_double (5 / 2) = 5 / 2"
  by (rule to_double_exact[where m = 5 and j = "-1"]) simp_all

lemma ceiling_half: "\<lceil>(1::real) / 2\<rceil> = 1"
  by (rule ceiling_unique) simp_all

section \<open>OptimizeVar\<close>


lemma sint_add_in_range: "in_int64 (sint a + sint b) \<Longrightarrow> sint (a + b :: int64) = sint a + sint b"
  by (simp add: in_int64_def sint_word_ariths signed_take_bit_int_eq_self)

lemma sint_sub_in_range: "in_int64 (sint a - sint b) \<Longrightarrow> sint (a - b :: int64) = sint a - sint b"
  by (simp add: in_int64_def sint_word_ariths signed_take_bit_int_eq_self)

lemma sint_int64: "in_int64 k \<Longrightarrow> sint (word_of_int k :: int64) = k"
  by (simp add: in_int64_def sint_sbintrunc' signed_take_bit_int_eq_self)

lemma AcceptSolution_fold_append:
  "AcceptSolution_fold (xs @ ys) = (AcceptSolution_fold xs \<and> AcceptSolution_fold ys)"
  by (induction xs) auto




text \<open>
  C10. AcceptSolution of OptimizeVar returns true exactly when the value of the objective
  strictly improves \<open>best_\<close> (above it when maximizing, below it when minimizing). It
  reads nothing but \<open>best_\<close> and the value, so it does not depend on a bound having been
  applied; and in the conjunction of the monitors' answers, the answer of the whole is
  true only if the value strictly improves \<open>best_\<close>.
\<close>

theorem OptimizeVar_AcceptSolution_strict:
  "OptimizeVar_AcceptSolution m val =
     (if OptimizeVar.maximize m then sint (OptimizeVar.best m) < sint val else sint val < sint (OptimizeVar.best m)) \<and>
   AcceptSolution_fold (before @ OptimizeVar_AcceptSolution m val # after) =
     (AcceptSolution_fold before \<and>
      (if OptimizeVar.maximize m then sint (OptimizeVar.best m) < sint val else sint val < sint (OptimizeVar.best m)) \<and>
      AcceptSolution_fold after)"
  by (simp add: OptimizeVar_AcceptSolution_def AcceptSolution_fold_append)

section \<open>Solution collectors\<close>

lemma SolutionCollector_EnterSearch_fresh:
  "SolutionCollector_EnterSearch (c :: 'a SolutionCollector) = new_SolutionCollector (prototype c)"
  by (simp add: SolutionCollector_EnterSearch_def new_SolutionCollector_def)

lemma FirstSolutionCollector_EnterSearch_fresh:
  "FirstSolutionCollector_EnterSearch c = new_FirstSolutionCollector (prototype c)"
  by (simp add: FirstSolutionCollector_EnterSearch_def SolutionCollector_EnterSearch_def
      new_FirstSolutionCollector_def)

lemma BestValueSolutionCollector_EnterSearch_fresh:
  "BestValueSolutionCollector_EnterSearch c =
     new_BestValueSolutionCollector (prototype c) (BestValueSolutionCollector.maximize c)"
  by (simp add: BestValueSolutionCollector_EnterSearch_def SolutionCollector_EnterSearch_def
      new_BestValueSolutionCollector_def)

lemma EnterSearch_empties:
  "solution_count (SolutionCollector_EnterSearch c) = 0"
  "solution (SolutionCollector_EnterSearch c) n = None"
  "wall_time_at (SolutionCollector_EnterSearch c) n = None"
  "branches_at (SolutionCollector_EnterSearch c) n = None"
  "failures_at (SolutionCollector_EnterSearch c) n = None"
  "objective_value (SolutionCollector_EnterSearch c) n = None"
  by (simp_all add: SolutionCollector_EnterSearch_def solution_count_def solution_def
      wall_time_at_def branches_at_def failures_at_def objective_value_def check_index_def)

text \<open>
  C9. For each collector (first, last, best value, all), EnterSearch discards what an
  earlier search stored: a trace that starts with EnterSearch leaves the collector as if
  it had been built anew from its prototype (and, for the best-value collector, its
  direction), so every later accessor result comes from the current search. Immediately
  after EnterSearch the solution count is 0, the per-solution statistics (times,
  branches, failures, objective values) and the recycled solutions are empty, every
  accessor fails its index check, and the first-solution collector's flag is cleared.
\<close>

theorem collectors_EnterSearch_discards:
  "FirstSolutionCollector_run f ((EnterSearch, s) # tr) =
     FirstSolutionCollector_run (new_FirstSolutionCollector (prototype f)) tr \<and>
   LastSolutionCollector_run c ((EnterSearch, s) # tr) =
     LastSolutionCollector_run (new_SolutionCollector (prototype c)) tr \<and>
   AllSolutionCollector_run c ((EnterSearch, s) # tr) =
     AllSolutionCollector_run (new_SolutionCollector (prototype c)) tr \<and>
   BestValueSolutionCollector_run b ((EnterSearch, s) # tr) =
     BestValueSolutionCollector_run
       (new_BestValueSolutionCollector (prototype b) (BestValueSolutionCollector.maximize b)) tr \<and>
   solution_count (FirstSolutionCollector_EnterSearch f) = 0 \<and>
   solution_count (SolutionCollector_EnterSearch c) = 0 \<and>
   solution_count (BestValueSolutionCollector_EnterSearch b) = 0 \<and>
   times_list (SolutionCollector_EnterSearch d) = [] \<and>
   SolutionCollector.branches (SolutionCollector_EnterSearch d) = [] \<and>
   SolutionCollector.failures (SolutionCollector_EnterSearch d) = [] \<and>
   objective_values (SolutionCollector_EnterSearch d) = [] \<and>
   recycle_solutions (SolutionCollector_EnterSearch d) = [] \<and>
   solution (SolutionCollector_EnterSearch d) n = None \<and>
   wall_time_at (SolutionCollector_EnterSearch d) n = None \<and>
   branches_at (SolutionCollector_EnterSearch d) n = None \<and>
   failures_at (SolutionCollector_EnterSearch d) n = None \<and>
   objective_value (SolutionCollector_EnterSearch d) n = None \<and>
   done_flag (FirstSolutionCollector_EnterSearch f) = False"
  by (simp add: SolutionCollector_EnterSearch_fresh FirstSolutionCollector_EnterSearch_fresh
      BestValueSolutionCollector_EnterSearch_fresh EnterSearch_empties)
     (simp add: new_SolutionCollector_def new_FirstSolutionCollector_def
      new_BestValueSolutionCollector_def solution_count_def SolutionCollector_EnterSearch_def)

section \<open>RegularLimit\<close>






lemma sint_succ:
  assumes "sint (c :: int64) < 2 ^ 63 - 1"
  shows "sint (c + 1) = sint c + 1"
proof -
  have "- (2 ^ 63) \<le> sint c" using sint_ge[of c] by simp
  with assms have "in_int64 (sint c + sint (1 :: int64))" by (simp add: in_int64_def)
  from sint_add_in_range[OF this] show ?thesis by simp
qed









section \<open>Simulated annealing\<close>

text \<open>The temperature is positive exactly when the initial temperature is: neither the
  division nor the two roundings reach zero from a quotient of at least \<open>2 ^ - 63\<close>.\<close>

lemma int64_to_double_bounds:
  assumes "0 < sint v"
  shows "1 \<le> int64_to_double v" and "int64_to_double v \<le> 2 powi 63"
proof -
  have "(2::real) powi 0 \<le> of_int (sint v)" using assms by (simp del: of_int_sint)
  from fp_round_ge_powi[OF this, of "- 1022" 53]
  show "1 \<le> int64_to_double v" by (simp add: int64_to_double_def to_double_def del: of_int_sint)
  have "sint v < 2 ^ 63" using sint_lt[of v] by simp
  then have "real_of_int (sint v) \<le> 2 ^ 63"
    by (metis of_int_le_iff of_int_numeral of_int_power less_imp_le)
  then have le: "real_of_int (sint v) \<le> 2 powi 63" by (simp del: of_int_sint)
  have pos: "0 < real_of_int (sint v)" using assms by (simp del: of_int_sint)
  from fp_round_le_powi[OF pos le, of "- 1022" 53]
  show "int64_to_double v \<le> 2 powi 63"
    by (simp add: int64_to_double_def to_double_def del: of_int_sint)
qed

lemma int64_to_double_nonpos: "sint v \<le> 0 \<Longrightarrow> int64_to_double v \<le> 0"
  unfolding int64_to_double_def to_double_def
  by (rule fp_round_nonpos) (simp del: of_int_sint)

lemma Temperature_positive_iff:
  assumes "0 < sint (SimulatedAnnealing.iteration m)"
  shows "0 < Temperature m \<longleftrightarrow> 0 < sint (temperature0 m)"
proof (cases "0 < sint (temperature0 m)")
  case True
  let ?a = "int64_to_double (temperature0 m)" and ?b = "int64_to_double (SimulatedAnnealing.iteration m)"
  from int64_to_double_bounds[OF True] have a: "1 \<le> ?a" by simp
  then have a1: "1 \<le> to_double (1 * ?a)"
    using fp_round_ge_powi[of 0 "1 * ?a" "- 1022" 53] by (simp add: to_double_def)
  from int64_to_double_bounds[OF assms] have b: "1 \<le> ?b" "?b \<le> 2 powi 63" by simp_all
  have "2 powi (- 63) \<le> 1 / ?b"
  proof -
    from b have "1 / (2 powi 63) \<le> 1 / ?b" by (intro divide_left_mono) simp_all
    then show ?thesis by (simp add: power_int_minus field_simps)
  qed
  also have "1 / ?b \<le> to_double (1 * ?a) / ?b"
    using a1 b(1) by (intro divide_right_mono) simp_all
  finally have q: "2 powi (- 63) \<le> to_double (1 * ?a) / ?b" .
  from fp_round_ge_powi[OF q, of "- 1022" 53]
  have "2 powi (- 63) \<le> to_double (to_double (1 * ?a) / ?b)" by (simp add: to_double_def)
  from fp_round_ge_powi[OF this, of "- 126" 24]
  have "2 powi (- 63) \<le> Temperature m" using assms by (simp add: Temperature_def to_float_def)
  moreover have "0 < (2::real) powi (- 63)" by simp
  ultimately have "0 < Temperature m" by linarith
  with True show ?thesis by simp
next
  case False
  let ?a = "int64_to_double (temperature0 m)" and ?b = "int64_to_double (SimulatedAnnealing.iteration m)"
  from False have "?a \<le> 0" by (intro int64_to_double_nonpos) simp
  then have "to_double (1 * ?a) \<le> 0"
    unfolding to_double_def by (intro fp_round_nonpos) simp
  moreover from int64_to_double_bounds[OF assms] have "0 < ?b" by simp
  ultimately have "to_double (1 * ?a) / ?b \<le> 0" by (simp add: divide_nonpos_pos)
  then have "to_double (to_double (1 * ?a) / ?b) \<le> 0"
    unfolding to_double_def by (rule fp_round_nonpos)
  then have "Temperature m \<le> 0"
    using assms unfolding Temperature_def to_float_def by (simp add: fp_round_nonpos)
  with False show ?thesis by simp
qed


lemma steps_from_Nil: "steps_from b [] = 0"
  by (simp add: steps_from_def)

lemma steps_from_Cons:
  "steps_from b (h # hs) =
     (if h = LocalOptimum then Suc (steps_from True hs)
      else if h = AcceptNeighbor \<and> b then Suc (steps_from True hs)
      else steps_from b hs)"
  by (simp add: steps_from_def)

lemma annealing_steps_eq: "annealing_steps hs = steps_from False hs"
  by (simp add: annealing_steps_def steps_from_def)

lemma SimulatedAnnealing_hook_fields:
  "temperature0 (SimulatedAnnealing_hook h ob m) = temperature0 m"
  "Metaheuristic.maximize (SimulatedAnnealing_hook h ob m) = Metaheuristic.maximize m"
  by (simp_all add: SimulatedAnnealing_hook_def SimulatedAnnealing_EnterSearch_def
      SimulatedAnnealing_AtSolution_def SimulatedAnnealing_LocalOptimum_def
      SimulatedAnnealing_AcceptNeighbor_def Let_def)

lemma SimulatedAnnealing_hook_iteration:
  assumes "0 \<le> sint (SimulatedAnnealing.iteration m)" "sint (SimulatedAnnealing.iteration m) < 2 ^ 63 - 1"
  shows "sint (SimulatedAnnealing.iteration (SimulatedAnnealing_hook h ob m)) =
           sint (SimulatedAnnealing.iteration m) +
           (if h = LocalOptimum \<or> (h = AcceptNeighbor \<and> 0 < sint (SimulatedAnnealing.iteration m)) then 1 else 0)"
  using sint_succ[OF assms(2)]
  by (simp add: SimulatedAnnealing_hook_def SimulatedAnnealing_EnterSearch_def
      SimulatedAnnealing_AtSolution_def SimulatedAnnealing_LocalOptimum_def
      SimulatedAnnealing_AcceptNeighbor_def Let_def)

lemma SimulatedAnnealing_run_iteration:
  "0 \<le> sint (SimulatedAnnealing.iteration m) \<Longrightarrow> sint (SimulatedAnnealing.iteration m) + int (length tr) < 2 ^ 63 \<Longrightarrow>
   sint (SimulatedAnnealing.iteration (SimulatedAnnealing_run m tr)) =
     sint (SimulatedAnnealing.iteration m) + int (steps_from (0 < sint (SimulatedAnnealing.iteration m)) (map fst tr)) \<and>
   temperature0 (SimulatedAnnealing_run m tr) = temperature0 m \<and>
   Metaheuristic.maximize (SimulatedAnnealing_run m tr) = Metaheuristic.maximize m"
proof (induction tr arbitrary: m)
  case Nil
  then show ?case by (simp add: steps_from_Nil)
next
  case (Cons x tr)
  obtain h ob where x: "x = (h, ob)" by (cases x)
  let ?m = "SimulatedAnnealing_hook h ob m"
  from Cons.prems have small: "sint (SimulatedAnnealing.iteration m) < 2 ^ 63 - 1" by simp
  note it = SimulatedAnnealing_hook_iteration[OF Cons.prems(1) small, of h ob]
  from it Cons.prems(1) have nonneg: "0 \<le> sint (SimulatedAnnealing.iteration ?m)" by simp
  from it Cons.prems(2) have bound: "sint (SimulatedAnnealing.iteration ?m) + int (length tr) < 2 ^ 63" by simp
  from Cons.IH[OF nonneg bound] it Cons.prems(1) show ?case
    by (auto simp: x steps_from_Cons SimulatedAnnealing_hook_fields)
qed

lemma new_SimulatedAnnealing_fields:
  "SimulatedAnnealing.iteration (new_SimulatedAnnealing mx st t0) = 0"
  "temperature0 (new_SimulatedAnnealing mx st t0) = t0"
  "Metaheuristic.maximize (new_SimulatedAnnealing mx st t0) = mx"
  by (simp_all add: new_SimulatedAnnealing_def)

lemma quotient_positive_iff:
  "0 < sint (i :: int64) \<Longrightarrow>
   (0 < real_of_int (sint (t :: int64)) / real_of_int (sint i)) = (0 < sint t)"
  by (simp add: zero_less_divide_iff del: of_int_sint)

text \<open>
  C7 (as amended). For a SimulatedAnnealing monitor built with initial temperature
  \<open>t0\<close>, after any trace of hooks (shorter than \<open>2 ^ 63 - 1\<close>), a call of LocalOptimum
  leaves the SimulatedAnnealing.iteration counter at one more than the number of LocalOptimum and
  AcceptNeighbor hooks from the first LocalOptimum of the trace on (so the counter is 1
  at the first LocalOptimum, and advances on each later LocalOptimum and AcceptNeighbor
  and on no other hook); it resets \<open>current_\<close> to the worst side; the temperature is then
  \<open>t0 / i\<close> computed in double and returned as a float; and the call returns true exactly
  when \<open>t0 / i > 0\<close>.
\<close>

theorem SimulatedAnnealing_LocalOptimum_schedule:
  assumes "length tr < 2 ^ 63 - 1"
    and "m = SimulatedAnnealing_run (new_SimulatedAnnealing mx st t0) tr"
  shows "sint (SimulatedAnnealing.iteration (fst (SimulatedAnnealing_LocalOptimum m))) =
           int (annealing_steps (map fst tr)) + 1 \<and>
         Metaheuristic.current (fst (SimulatedAnnealing_LocalOptimum m)) =
           (if mx then kint64min else kint64max) \<and>
         Temperature (fst (SimulatedAnnealing_LocalOptimum m)) =
           to_float (to_double (to_double (1 * int64_to_double t0) /
             int64_to_double (SimulatedAnnealing.iteration (fst (SimulatedAnnealing_LocalOptimum m))))) \<and>
         snd (SimulatedAnnealing_LocalOptimum m) =
           (0 < real_of_int (sint t0) /
                real_of_int (sint (SimulatedAnnealing.iteration (fst (SimulatedAnnealing_LocalOptimum m)))))"
proof -
  let ?m0 = "new_SimulatedAnnealing mx st t0"
  let ?m' = "fst (SimulatedAnnealing_LocalOptimum m)"
  have z: "0 \<le> sint (SimulatedAnnealing.iteration ?m0)" by (simp add: new_SimulatedAnnealing_fields)
  from assms(1) have b: "sint (SimulatedAnnealing.iteration ?m0) + int (length tr) < 2 ^ 63"
    by (simp add: new_SimulatedAnnealing_fields)
  from SimulatedAnnealing_run_iteration[OF z b]
  have it: "sint (SimulatedAnnealing.iteration m) = int (annealing_steps (map fst tr))"
    and t0: "temperature0 m = t0" and mx: "Metaheuristic.maximize m = mx"
    by (simp_all add: assms(2) new_SimulatedAnnealing_fields annealing_steps_eq)
  have "annealing_steps (map fst tr) \<le> length tr"
    by (simp add: annealing_steps_def)
       (metis (no_types, lifting) length_dropWhile_le length_filter_le le_trans length_map)
  with assms(1) it have small: "sint (SimulatedAnnealing.iteration m) < 2 ^ 63 - 1" by simp
  have it': "sint (SimulatedAnnealing.iteration ?m') = int (annealing_steps (map fst tr)) + 1"
    using sint_succ[OF small] it by (simp add: SimulatedAnnealing_LocalOptimum_def Let_def)
  then have pos: "0 < sint (SimulatedAnnealing.iteration ?m')" by simp
  have t0': "temperature0 ?m' = t0"
    by (simp add: SimulatedAnnealing_LocalOptimum_def Let_def t0)
  have cur: "Metaheuristic.current ?m' = (if mx then kint64min else kint64max)"
    by (simp add: SimulatedAnnealing_LocalOptimum_def Let_def mx)
  have temp: "Temperature ?m' = to_float (to_double (to_double (1 * int64_to_double t0) /
             int64_to_double (SimulatedAnnealing.iteration ?m')))"
    using pos by (simp add: Temperature_def t0')
  have "snd (SimulatedAnnealing_LocalOptimum m) = (0 < Temperature ?m')"
    by (simp add: SimulatedAnnealing_LocalOptimum_def Let_def)
  also have "\<dots> = (0 < sint t0)"
    using Temperature_positive_iff[OF pos] by (simp add: t0')
  also have "\<dots> = (0 < real_of_int (sint t0) / real_of_int (sint (SimulatedAnnealing.iteration ?m')))"
    using quotient_positive_iff[OF pos, of t0] by simp
  finally show ?thesis using it' cur temp by simp
qed


theorem SimulatedAnnealing_LocalOptimum_schedule_witness:
  "length [(LocalOptimum, \<lparr>objective_Min = 0, objective_Max = 50, objective_Value = 7\<rparr>),
           (AcceptNeighbor, \<lparr>objective_Min = 0, objective_Max = 50, objective_Value = 7\<rparr>)]
     < 2 ^ 63 - 1 \<and>
   sint (SimulatedAnnealing.iteration (fst (SimulatedAnnealing_LocalOptimum
     (SimulatedAnnealing_run (new_SimulatedAnnealing False 1 100)
        [(LocalOptimum, \<lparr>objective_Min = 0, objective_Max = 50, objective_Value = 7\<rparr>),
         (AcceptNeighbor, \<lparr>objective_Min = 0, objective_Max = 50, objective_Value = 7\<rparr>)])))) = 3 \<and>
   snd (SimulatedAnnealing_LocalOptimum
     (SimulatedAnnealing_run (new_SimulatedAnnealing False 1 100)
        [(LocalOptimum, \<lparr>objective_Min = 0, objective_Max = 50, objective_Value = 7\<rparr>),
         (AcceptNeighbor, \<lparr>objective_Min = 0, objective_Max = 50, objective_Value = 7\<rparr>)]))"
proof -
  let ?ob = "\<lparr>objective_Min = 0, objective_Max = 50, objective_Value = 7\<rparr>"
  let ?tr = "[(LocalOptimum, ?ob), (AcceptNeighbor, ?ob)]"
  let ?m = "SimulatedAnnealing_run (new_SimulatedAnnealing False 1 100) ?tr"
  have h: "length ?tr < 2 ^ 63 - 1" by simp
  have n: "annealing_steps (map fst ?tr) = 2" by (simp add: annealing_steps_def)
  note th = SimulatedAnnealing_LocalOptimum_schedule[OF h refl, of False 1 100]
  from th have "sint (SimulatedAnnealing.iteration (fst (SimulatedAnnealing_LocalOptimum ?m))) =
      int (annealing_steps (map fst ?tr)) + 1"
    by (rule conjunct1)
  then have it: "sint (SimulatedAnnealing.iteration (fst (SimulatedAnnealing_LocalOptimum ?m))) = 3"
    by (simp only: n of_nat_numeral)
  from th[THEN conjunct2, THEN conjunct2, THEN conjunct2]
  have "snd (SimulatedAnnealing_LocalOptimum ?m) =
      (0 < real_of_int (sint (100 :: int64)) /
           real_of_int (sint (SimulatedAnnealing.iteration (fst (SimulatedAnnealing_LocalOptimum ?m)))))" .
  then have "snd (SimulatedAnnealing_LocalOptimum ?m) =
      (0 < real_of_int (sint (100 :: int64)) / real_of_int 3)"
    by (simp only: it)
  moreover have "(0 < real_of_int (sint (100 :: int64)) / real_of_int 3)" by simp
  ultimately have r: "snd (SimulatedAnnealing_LocalOptimum ?m)"
    by (rule iffD2)
  from h it r show ?thesis by (intro conjI)
qed

text \<open>
  C7 as stated lets the counter advance on LocalOptimum only. It also advances on
  AcceptNeighbor once it is positive: after LocalOptimum, AcceptNeighbor, LocalOptimum
  the counter is 3, with two LocalOptimum hooks.
\<close>

theorem SimulatedAnnealing_iteration_counterexample:
  "sint (iteration
     (SimulatedAnnealing_run (new_SimulatedAnnealing False 1 100)
        [(LocalOptimum, \<lparr>objective_Min = 0, objective_Max = 50, objective_Value = 7\<rparr>),
         (AcceptNeighbor, \<lparr>objective_Min = 0, objective_Max = 50, objective_Value = 7\<rparr>),
         (LocalOptimum, \<lparr>objective_Min = 0, objective_Max = 50, objective_Value = 7\<rparr>)])) = 3 \<and>
   LocalOptimum_count [LocalOptimum, AcceptNeighbor, LocalOptimum] = 2"
  by (simp add: SimulatedAnnealing_hook_def SimulatedAnnealing_LocalOptimum_def
      SimulatedAnnealing_AcceptNeighbor_def new_SimulatedAnnealing_def Let_def
      LocalOptimum_count_def)

section \<open>RandomValueSelector\<close>

text \<open>
  C8 says that the value selected is in the domain. On the domain \<open>{3, 30}\<close> (size 2,
  span 28, so the selector counts) with \<open>Rand64(2) = 0\<close> the selector returns 0, which
  is not in the domain: the counting loop decrements the rank before it compares it
  with 0, so rank 0 is never matched, the loop runs out, the CHECK passes and the final
  \<open>return 0LL\<close> is reached.
\<close>

theorem RandomValueSelector_Select_outside_domain:
  "RandomValueSelector_Select \<lparr>domain_values = [3, 30]\<rparr> [0] = Inr 0 \<and>
   \<not> IntVar_Contains \<lparr>domain_values = [3, 30]\<rparr> 0 \<and>
   IntVar_Size \<lparr>domain_values = [3, 30]\<rparr> = 2"
  by code_simp

section \<open>Guided local search\<close>

lemma upt_0_2: "[0..<2] = [0, 1]"
  by (simp add: upt_rec numeral_2_eq_2)

lemma replicate_2: "replicate 2 x = [x, x]"
  by (simp add: numeral_2_eq_2)

lemmas gls_eval =
  GuidedLocalSearch_LocalOptimum_def utility_of_def penalize_sorted_def std_sort_def
  new_GuidedLocalSearchPenaltiesTable_def new_GuidedLocalSearchPenaltiesMap_def
  BinaryGuidedLocalSearch_AssignmentPenalty_def TernaryGuidedLocalSearch_AssignmentPenalty_def
  int64_to_double_def double_to_int64_def resize_def
  to_double_5 to_double_1 to_double_0 to_double_2 to_double_5_2 upt_0_2 replicate_2
  Let_def

text \<open>
  C1 says that LocalOptimum increments the penalty of every arc whose utility attains
  the maximum. Take two variables with stored values 1 and 0 and cost 5 for every arc.
  On fresh penalties both utilities are 5 and both arcs are penalised. At the next
  LocalOptimum both utilities are \<open>5 / 2\<close>, a tie at the maximum, and only one arc is
  incremented, whichever the sort puts first, with the dense and with the sparse
  penalties, for the binary and for the ternary search: the maximum is stored in an int64, so \<open>5 / 2\<close> becomes 2 and no longer
  equals the utility of the second arc.
\<close>

theorem GuidedLocalSearch_LocalOptimum_misses_tie:
  "GuidedLocalSearch_LocalOptimum (BinaryGuidedLocalSearch_AssignmentPenalty (\<lambda>i j. 5))
     \<lparr>step = 1, current = 100, best = 100, maximize = False,
      assignment = [1, 0], penalties = new_GuidedLocalSearchPenaltiesTable 2\<rparr>
   = Some (\<lparr>step = 1, current = kint64max, best = 100, maximize = False,
             assignment = [1, 0], penalties = PenaltiesTable [[0, 1], [1]] True\<rparr>, True) \<and>
   those_all (map (utility_of (BinaryGuidedLocalSearch_AssignmentPenalty (\<lambda>i j. 5))
       \<lparr>step = 1, current = kint64max, best = 100, maximize = False,
        assignment = [1, 0], penalties = PenaltiesTable [[0, 1], [1]] True\<rparr>) [0..<2])
   = Some [((0, 1), 5 / 2), ((1, 0), 5 / 2)] \<and>
   GuidedLocalSearch_LocalOptimum (BinaryGuidedLocalSearch_AssignmentPenalty (\<lambda>i j. 5))
     \<lparr>step = 1, current = kint64max, best = 100, maximize = False,
      assignment = [1, 0], penalties = PenaltiesTable [[0, 1], [1]] True\<rparr>
   = Some (\<lparr>step = 1, current = kint64max, best = 100, maximize = False,
             assignment = [1, 0], penalties = PenaltiesTable [[0, 2], [1]] True\<rparr>, True) \<and>
   penalize_sorted [((1, 0), 5 / 2), ((0, 1), 5 / 2)]
     \<lparr>step = 1, current = kint64max, best = 100, maximize = False,
      assignment = [1, 0], penalties = PenaltiesTable [[0, 1], [1]] True\<rparr>
   = Some (\<lparr>step = 1, current = kint64max, best = 100, maximize = False,
             assignment = [1, 0], penalties = PenaltiesTable [[0, 1], [2]] True\<rparr>, True) \<and>
   GuidedLocalSearch_LocalOptimum (BinaryGuidedLocalSearch_AssignmentPenalty (\<lambda>i j. 5))
     \<lparr>step = 1, current = kint64max, best = 100, maximize = False,
      assignment = [1, 0],
      penalties = PenaltiesMap [True, True] [((0, 1), 1), ((1, 0), 1)]\<rparr>
   = Some (\<lparr>step = 1, current = kint64max, best = 100, maximize = False,
             assignment = [1, 0],
             penalties = PenaltiesMap [True, True] [((0, 1), 2), ((1, 0), 1)]\<rparr>, True) \<and>
   GuidedLocalSearch_LocalOptimum
     (TernaryGuidedLocalSearch_AssignmentPenalty (\<lambda>i j k. 5) [0, 1])
     \<lparr>step = 1, current = kint64max, best = 100, maximize = False,
      assignment = [1, 0], penalties = PenaltiesTable [[0, 1], [1]] True\<rparr>
   = Some (\<lparr>step = 1, current = kint64max, best = 100, maximize = False,
             assignment = [1, 0], penalties = PenaltiesTable [[0, 2], [1]] True\<rparr>, True)"
  by (simp add: gls_eval)

section \<open>Tabu search\<close>

lemma fresh_bool_vars_0: "fresh_bool_vars k 0 = []"
  by (simp add: fresh_bool_vars_def)

lemma fresh_bool_vars_Suc: "fresh_bool_vars k (Suc n) = BoolVar k # fresh_bool_vars (Suc k) n"
proof -
  have "[k..<k + Suc n] = k # [Suc k..<Suc k + n]"
    by (simp add: upt_conv_Cons del: upt_Suc)
  then show ?thesis by (simp only: fresh_bool_vars_def list.map)
qed

lemma fresh_bool_vars_add:
  "fresh_bool_vars k (a + b) = fresh_bool_vars k a @ fresh_bool_vars (k + a) b"
  using upt_add_eq_append[of k "k + a" b]
  by (simp add: fresh_bool_vars_def add.assoc del: upt_Suc)

lemma fresh_bool_vars_empty: "fresh_bool_vars k n = [] \<longleftrightarrow> n = 0"
  by (auto simp: fresh_bool_vars_def)

lemma tabu_literals_Nil: "tabu_literals mk [] k = []"
  by (simp add: tabu_literals_def)

lemma tabu_literals_Cons:
  "tabu_literals mk (e # es) k = mk e (BoolVar k) # tabu_literals mk es (Suc k)"
  by (simp add: tabu_literals_def fresh_bool_vars_Suc)

lemma literals_sum:
  assumes "\<And>e b. holds \<rho> (mk e b) \<longleftrightarrow> \<rho> b = truth (sat e)"
  shows "list_all (holds \<rho>) (tabu_literals mk es k) \<Longrightarrow>
         sum_list (map \<rho> (fresh_bool_vars k (length es))) = int (length (filter sat es))"
proof (induction es arbitrary: k)
  case Nil
  then show ?case by (simp add: fresh_bool_vars_0)
next
  case (Cons e es)
  from Cons.prems have h: "\<rho> (BoolVar k) = truth (sat e)"
    and t: "list_all (holds \<rho>) (tabu_literals mk es (Suc k))"
    by (simp_all add: tabu_literals_Cons assms)
  from Cons.IH[OF t] h show ?case by (simp add: truth_def fresh_bool_vars_Suc)
qed

lemma literals_hold:
  assumes "\<And>e b. holds \<rho> (mk e b) \<longleftrightarrow> \<rho> b = truth (sat e)"
  shows "(\<And>i. i < length es \<Longrightarrow> \<rho> (BoolVar (k + i)) = truth (sat (es ! i))) \<Longrightarrow>
         list_all (holds \<rho>) (tabu_literals mk es k)"
proof (induction es arbitrary: k)
  case Nil
  then show ?case by (simp add: tabu_literals_Nil)
next
  case (Cons e es)
  from Cons.prems[of 0] have h: "\<rho> (BoolVar k) = truth (sat e)" by simp
  have "\<And>i. i < length es \<Longrightarrow> \<rho> (BoolVar (Suc k + i)) = truth (sat (es ! i))"
    using Cons.prems[of "Suc i" for i] by simp
  from Cons.IH[OF this] h show ?case by (simp add: tabu_literals_Cons assms)
qed

lemma keep_cst_holds:
  "holds \<rho> (keep_cst e b) \<longleftrightarrow> \<rho> b = truth (keep_satisfied \<rho> e)"
  by (simp add: keep_cst_def keep_satisfied_def)

lemma forbid_cst_holds:
  "holds \<rho> (forbid_cst e b) \<longleftrightarrow> \<rho> b = truth (forbid_satisfied \<rho> e)"
  by (simp add: forbid_cst_def forbid_satisfied_def)

lemma extend_simps [simp]:
  "extend \<rho> \<beta> Objective = \<rho> Objective"
  "extend \<rho> \<beta> (Var i) = \<rho> (Var i)"
  "extend \<rho> \<beta> (BoolVar j) = \<beta> j"
  by (simp_all add: extend_def)

lemma extend_literals [simp]:
  "keep_satisfied (extend \<rho> \<beta>) = keep_satisfied \<rho>"
  "forbid_satisfied (extend \<rho> \<beta>) = forbid_satisfied \<rho>"
  by (simp_all add: keep_satisfied_def forbid_satisfied_def fun_eq_iff)

lemma extend_predicates [simp]:
  "satisfied_literals (extend \<rho> \<beta>) m = satisfied_literals \<rho> m"
  "aspiration_posted (extend \<rho> \<beta>) m = aspiration_posted \<rho> m"
  "descent_posted (extend \<rho> \<beta>) m = descent_posted \<rho> m"
  by (simp_all add: satisfied_literals_def aspiration_posted_def descent_posted_def)

lemma posted_satisfiable_extend:
  "posted_satisfiable \<rho> cs \<longleftrightarrow> (\<exists>\<beta>. list_all (holds (extend \<rho> \<beta>)) cs)"
  by (simp add: posted_satisfiable_def extend_def)

lemma ApplyDecision_sound:
  assumes ne: "keep_tabu_list m @ forbid_tabu_list m \<noteq> []"
    and all: "list_all (holds \<rho>) (fst (TabuSearch_ApplyDecision False k m))"
  shows "tabu_condition \<rho> m"
proof -
  let ?nk = "length (keep_tabu_list m)" and ?nf = "length (forbid_tabu_list m)"
  from ne have vars_ne: "fresh_bool_vars (k + 1) (?nk + ?nf) \<noteq> []"
    by (auto simp: fresh_bool_vars_empty)
  from all vars_ne have
    asp: "\<rho> (BoolVar k) = truth (aspiration_posted \<rho> m)"
    and keep: "list_all (holds \<rho>) (tabu_literals keep_cst (keep_tabu_list m) (k + 1))"
    and forbid: "list_all (holds \<rho>) (tabu_literals forbid_cst (forbid_tabu_list m) (k + 1 + ?nk))"
    and thr: "\<rho> (BoolVar (k + 1 + ?nk + ?nf)) =
        truth (sint (tabu_threshold m) \<le> sum_list (map \<rho> (fresh_bool_vars (k + 1) (?nk + ?nf))))"
    and disj: "1 \<le> \<rho> (BoolVar k) + \<rho> (BoolVar (k + 1 + ?nk + ?nf))"
    and desc: "descent_posted \<rho> m"
    and plateau: "\<rho> Objective \<noteq> sint (last_v m)"
    by (auto simp: TabuSearch_ApplyDecision_def Let_def aspiration_posted_def descent_posted_def
             split: if_splits)
  from literals_sum[of \<rho> keep_cst "keep_satisfied \<rho>", OF keep_cst_holds keep]
       literals_sum[of \<rho> forbid_cst "forbid_satisfied \<rho>", OF forbid_cst_holds forbid]
  have "sum_list (map \<rho> (fresh_bool_vars (k + 1) (?nk + ?nf))) = int (satisfied_literals \<rho> m)"
    by (simp add: fresh_bool_vars_add satisfied_literals_def)
  with thr have thr': "\<rho> (BoolVar (k + 1 + ?nk + ?nf)) =
        truth (sint (tabu_threshold m) \<le> int (satisfied_literals \<rho> m))" by simp
  from disj asp thr' have "sint (tabu_threshold m) \<le> int (satisfied_literals \<rho> m) \<or> aspiration_posted \<rho> m"
    by (auto simp: truth_def split: if_splits)
  with desc plateau show ?thesis by (simp add: tabu_condition_def)
qed

lemma ApplyDecision_complete:
  assumes cond: "tabu_condition \<rho> m"
  shows "list_all (holds (extend \<rho> (tabu_bools \<rho> k m)))
           (fst (TabuSearch_ApplyDecision False k m))"
proof -
  let ?nk = "length (keep_tabu_list m)" and ?nf = "length (forbid_tabu_list m)"
  let ?\<rho> = "extend \<rho> (tabu_bools \<rho> k m)"
  have keep: "list_all (holds ?\<rho>) (tabu_literals keep_cst (keep_tabu_list m) (k + 1))"
    by (rule literals_hold[of ?\<rho> keep_cst "keep_satisfied ?\<rho>", OF keep_cst_holds])
       (simp add: tabu_bools_def)
  have forbid: "list_all (holds ?\<rho>) (tabu_literals forbid_cst (forbid_tabu_list m) (k + 1 + ?nk))"
    by (rule literals_hold[of ?\<rho> forbid_cst "forbid_satisfied ?\<rho>", OF forbid_cst_holds])
       (simp add: tabu_bools_def)
  from literals_sum[of ?\<rho> keep_cst "keep_satisfied ?\<rho>", OF keep_cst_holds keep]
       literals_sum[of ?\<rho> forbid_cst "forbid_satisfied ?\<rho>", OF forbid_cst_holds forbid]
  have sum: "sum_list (map ?\<rho> (fresh_bool_vars (k + 1) (?nk + ?nf))) =
      int (satisfied_literals \<rho> m)"
    by (simp add: fresh_bool_vars_add satisfied_literals_def)
  have asp: "?\<rho> (BoolVar k) = truth (aspiration_posted \<rho> m)"
    by (simp add: tabu_bools_def)
  have thr: "?\<rho> (BoolVar (k + 1 + ?nk + ?nf)) =
      truth (sint (tabu_threshold m) \<le> int (satisfied_literals \<rho> m))"
    by (simp add: tabu_bools_def)
  from cond have c: "sint (tabu_threshold m) \<le> int (satisfied_literals \<rho> m) \<or> aspiration_posted \<rho> m"
    "descent_posted \<rho> m" "\<rho> Objective \<noteq> sint (last_v m)"
    by (simp_all add: tabu_condition_def)
  from c(1) have disj: "1 \<le> ?\<rho> (BoolVar k) + ?\<rho> (BoolVar (k + 1 + ?nk + ?nf))"
    unfolding asp thr by (auto simp: truth_def)
  have asp_ct: "holds ?\<rho> (if maximize m
                then IsGreaterOrEqualCstCt (V Objective) (best m + step m) (BoolVar k)
                else IsLessOrEqualCstCt (V Objective) (best m - step m) (BoolVar k))"
    using asp by (simp add: aspiration_posted_def)
  have desc_ct: "holds ?\<rho> (if maximize m then GreaterOrEqual (V Objective) (current m + step m)
                else LessOrEqual (V Objective) (current m - step m))"
    using c(2) by (simp add: descent_posted_def)
  have thr_ct: "holds ?\<rho> (IsGreaterOrEqualCstCt (Sum (fresh_bool_vars (k + 1) (?nk + ?nf)))
      (tabu_threshold m) (BoolVar (k + 1 + ?nk + ?nf)))"
    using thr sum by simp
  have disj_ct: "holds ?\<rho> (GreaterOrEqual (Sum [BoolVar k, BoolVar (k + 1 + ?nk + ?nf)]) 1)"
    using disj by simp
  have plateau_ct: "holds ?\<rho> (NonEquality (V Objective) (last_v m))"
    using c(3) by simp
  show ?thesis
    unfolding TabuSearch_ApplyDecision_def Let_def
    using asp_ct keep forbid thr_ct disj_ct desc_ct plateau_ct
    by (simp del: holds.simps)
qed

text \<open>Where the sums do not overflow, the posted literals are those of the claim.\<close>

lemma aspiration_posted_holds:
  assumes "in_int64 (if maximize m then sint (best m) + sint (step m)
                     else sint (best m) - sint (step m))"
  shows "aspiration_posted \<rho> m = aspiration_holds \<rho> m"
  using assms
  by (simp add: aspiration_posted_def aspiration_holds_def sint_add_in_range sint_sub_in_range
           split: if_splits)

lemma descent_posted_holds:
  assumes "in_int64 (if maximize m then sint (current m) + sint (step m)
                     else sint (current m) - sint (step m))"
  shows "descent_posted \<rho> m = descent_holds \<rho> m"
  using assms
  by (simp add: descent_posted_def descent_holds_def sint_add_in_range sint_sub_in_range
           split: if_splits)

text \<open>The threshold posted: the number of entries, below \<open>2 ^ 53\<close>, is a double; its
  product with a tabu factor in \<open>[0, 1]\<close> is rounded to a double between 0 and \<open>2 ^ 53\<close>,
  and the conversion to int64 takes the integer part of that double.\<close>

lemma fp_round_nonneg:
  assumes "0 \<le> x"
  shows "0 \<le> fp_round p emin x"
proof (cases "x = 0")
  case True
  then show ?thesis by (simp add: fp_round_def)
next
  case False
  define ulp :: real where "ulp = 2 powi (max \<lfloor>log 2 \<bar>x\<bar>\<rfloor> emin - int p + 1)"
  have ulp: "0 < ulp" by (simp add: ulp_def)
  with assms have "of_int 0 \<le> x / ulp" by simp
  then have "0 \<le> rne (x / ulp)" by (rule rne_ge)
  then have "0 \<le> of_int (rne (x / ulp)) * ulp"
    using ulp by (simp add: zero_le_mult_iff)
  with False show ?thesis by (simp add: fp_round_def Let_def ulp_def)
qed

lemma tabu_threshold_value:
  assumes "0 \<le> tabu_factor m" "tabu_factor m \<le> 1" "tabu_entries m < 2 ^ 53"
  shows "sint (tabu_threshold m) = \<lfloor>to_double (real (tabu_entries m) * tabu_factor m)\<rfloor>"
proof -
  let ?x = "real (tabu_entries m) * tabu_factor m"
  from assms(3) have "\<bar>int (tabu_entries m)\<bar> < 2 ^ 53" by simp
  from to_double_int[OF this]
  have size: "to_double (real (tabu_entries m)) = real (tabu_entries m)" by simp
  have x0: "0 \<le> ?x" using assms(1) by simp
  have "?x \<le> real (tabu_entries m) * 1" using assms(2) by (intro mult_left_mono) simp_all
  moreover have "real (tabu_entries m) \<le> 2 ^ 53" using assms(3) by simp
  ultimately have x1: "?x \<le> 2 powi 53" by simp
  have r0: "0 \<le> to_double ?x" unfolding to_double_def using x0 by (rule fp_round_nonneg)
  have r1: "to_double ?x \<le> 2 powi 53"
  proof (cases "?x = 0")
    case True
    have "(0::real) \<le> 2 powi 53" by simp
    then show ?thesis by (simp only: True to_double_0)
  next
    case False
    with x0 have "0 < ?x" by (metis order_le_less)
    then show ?thesis unfolding to_double_def using x1 by (rule fp_round_le_powi) simp_all
  qed
  from r0 have f0: "0 \<le> \<lfloor>to_double ?x\<rfloor>" by simp
  from r1 have "\<lfloor>to_double ?x\<rfloor> \<le> 2 ^ 53" by (simp add: floor_le_iff)
  with f0 have "in_int64 \<lfloor>to_double ?x\<rfloor>" by (simp add: in_int64_def)
  then have fits: "sint (word_of_int \<lfloor>to_double ?x\<rfloor> :: int64) = \<lfloor>to_double ?x\<rfloor>"
    by (rule sint_int64)
  have "tabu_threshold m = double_to_int64 (to_double ?x)"
    by (simp only: tabu_threshold_def tabu_entries_def[symmetric] size)
  also have "\<dots> = word_of_int \<lfloor>to_double ?x\<rfloor>"
    using r0 by (simp only: double_to_int64_def if_True)
  finally show ?thesis by (simp only: fits)
qed

text \<open>
  C4 (as amended). For a TabuSearch with tabu factor in \<open>[0, 1]\<close>, a decision that is not
  the balancing decision and at least one entry (and fewer than \<open>2 ^ 53\<close> entries) in the
  tabu lists, and where \<open>best_ + step_\<close> and \<open>current_ + step_\<close> (maximizing), or
  \<open>best_ - step_\<close> and \<open>current_ - step_\<close> (minimizing), do not overflow int64: the
  constraints that ApplyDecision posts can be satisfied at given values of the objective
  and of the tracked variables exactly when the number of satisfied tabu literals
  (\<open>var = value\<close> for a keep entry, \<open>var \<noteq> value\<close> for a forbid entry) is at least the
  integer part of the product, rounded to a double, of the number of entries and the
  tabu factor, or the aspiration literal holds; and the objective descends strictly from
  \<open>current_\<close> and differs from \<open>last_\<close>.
\<close>

theorem TabuSearch_ApplyDecision_softened_tabu:
  assumes "0 \<le> tabu_factor m" "tabu_factor m \<le> 1"
    and "keep_tabu_list m @ forbid_tabu_list m \<noteq> []"
    and "tabu_entries m < 2 ^ 53"
    and "in_int64 (if maximize m then sint (best m) + sint (step m)
                   else sint (best m) - sint (step m))"
    and "in_int64 (if maximize m then sint (current m) + sint (step m)
                   else sint (current m) - sint (step m))"
  shows "posted_satisfiable \<rho> (fst (TabuSearch_ApplyDecision False k m)) \<longleftrightarrow>
           (\<lfloor>to_double (real (tabu_entries m) * tabu_factor m)\<rfloor> \<le> int (satisfied_literals \<rho> m) \<or>
            aspiration_holds \<rho> m) \<and>
           descent_holds \<rho> m \<and> \<rho> Objective \<noteq> sint (last_v m)"
proof -
  have cond: "tabu_condition \<rho> m \<longleftrightarrow>
      (\<lfloor>to_double (real (tabu_entries m) * tabu_factor m)\<rfloor> \<le> int (satisfied_literals \<rho> m) \<or>
       aspiration_holds \<rho> m) \<and>
      descent_holds \<rho> m \<and> \<rho> Objective \<noteq> sint (last_v m)"
    by (simp only: tabu_condition_def tabu_threshold_value[OF assms(1,2,4)]
        aspiration_posted_holds[OF assms(5)] descent_posted_holds[OF assms(6)])
  have "posted_satisfiable \<rho> (fst (TabuSearch_ApplyDecision False k m)) \<longleftrightarrow> tabu_condition \<rho> m"
  proof
    assume "posted_satisfiable \<rho> (fst (TabuSearch_ApplyDecision False k m))"
    then obtain \<beta> where
      "list_all (holds (extend \<rho> \<beta>)) (fst (TabuSearch_ApplyDecision False k m))"
      by (auto simp: posted_satisfiable_extend)
    from ApplyDecision_sound[OF assms(3) this]
    show "tabu_condition \<rho> m" by (simp add: tabu_condition_def)
  next
    assume "tabu_condition \<rho> m"
    from ApplyDecision_complete[OF this, of k]
    show "posted_satisfiable \<rho> (fst (TabuSearch_ApplyDecision False k m))"
      by (auto simp: posted_satisfiable_extend)
  qed
  with cond show ?thesis by simp
qed

lemma fresh_bool_vars_numeral:
  "fresh_bool_vars k (numeral n) = BoolVar k # fresh_bool_vars (Suc k) (pred_numeral n)"
  by (simp add: numeral_eq_Suc fresh_bool_vars_Suc)

lemma fresh_bool_vars_1: "fresh_bool_vars k (Suc 0) = [BoolVar k]"
  by (simp add: fresh_bool_vars_Suc fresh_bool_vars_0)

theorem TabuSearch_ApplyDecision_softened_tabu_witness:
  "(0::real) \<le> 1 / 2 \<and> (1::real) / 2 \<le> 1 \<and>
   tabu_entries
     \<lparr>step = 1, current = 50, best = 10, maximize = False, last_v = 50,
      keep_tabu_list = [\<lparr>var = 0, value_v = 7, stamp = 1\<rparr>, \<lparr>var = 1, value_v = 4, stamp = 1\<rparr>],
      keep_tenure = 2, forbid_tabu_list = [\<lparr>var = 0, value_v = 3, stamp = 1\<rparr>],
      forbid_tenure = 2, tabu_factor = 1 / 2, stamp = 2\<rparr> = 3 \<and>
   (3::nat) < 2 ^ 53 \<and>
   in_int64 (sint (10 :: int64) - sint (1 :: int64)) \<and>
   in_int64 (sint (50 :: int64) - sint (1 :: int64)) \<and>
   \<lfloor>to_double (real (tabu_entries
     \<lparr>step = 1, current = 50, best = 10, maximize = False, last_v = 50,
      keep_tabu_list = [\<lparr>var = 0, value_v = 7, stamp = 1\<rparr>, \<lparr>var = 1, value_v = 4, stamp = 1\<rparr>],
      keep_tenure = 2, forbid_tabu_list = [\<lparr>var = 0, value_v = 3, stamp = 1\<rparr>],
      forbid_tenure = 2, tabu_factor = 1 / 2, stamp = 2\<rparr>) * (1 / 2))\<rfloor> = 1 \<and>
   satisfied_literals (\<lambda>v. case v of Objective \<Rightarrow> 40 | Var i \<Rightarrow> 3 | BoolVar j \<Rightarrow> 0)
     \<lparr>step = 1, current = 50, best = 10, maximize = False, last_v = 50,
      keep_tabu_list = [\<lparr>var = 0, value_v = 7, stamp = 1\<rparr>, \<lparr>var = 1, value_v = 4, stamp = 1\<rparr>],
      keep_tenure = 2, forbid_tabu_list = [\<lparr>var = 0, value_v = 3, stamp = 1\<rparr>],
      forbid_tenure = 2, tabu_factor = 1 / 2, stamp = 2\<rparr> = 0 \<and>
   \<not> posted_satisfiable (\<lambda>v. case v of Objective \<Rightarrow> 40 | Var i \<Rightarrow> 3 | BoolVar j \<Rightarrow> 0)
     (fst (TabuSearch_ApplyDecision False 5
       \<lparr>step = 1, current = 50, best = 10, maximize = False, last_v = 50,
      keep_tabu_list = [\<lparr>var = 0, value_v = 7, stamp = 1\<rparr>, \<lparr>var = 1, value_v = 4, stamp = 1\<rparr>],
      keep_tenure = 2, forbid_tabu_list = [\<lparr>var = 0, value_v = 3, stamp = 1\<rparr>],
      forbid_tenure = 2, tabu_factor = 1 / 2, stamp = 2\<rparr>)) \<and>
   satisfied_literals (\<lambda>v. case v of Objective \<Rightarrow> 40 | Var i \<Rightarrow> 4 | BoolVar j \<Rightarrow> 0)
     \<lparr>step = 1, current = 50, best = 10, maximize = False, last_v = 50,
      keep_tabu_list = [\<lparr>var = 0, value_v = 7, stamp = 1\<rparr>, \<lparr>var = 1, value_v = 4, stamp = 1\<rparr>],
      keep_tenure = 2, forbid_tabu_list = [\<lparr>var = 0, value_v = 3, stamp = 1\<rparr>],
      forbid_tenure = 2, tabu_factor = 1 / 2, stamp = 2\<rparr> = 2 \<and>
   posted_satisfiable (\<lambda>v. case v of Objective \<Rightarrow> 40 | Var i \<Rightarrow> 4 | BoolVar j \<Rightarrow> 0)
     (fst (TabuSearch_ApplyDecision False 5
       \<lparr>step = 1, current = 50, best = 10, maximize = False, last_v = 50,
      keep_tabu_list = [\<lparr>var = 0, value_v = 7, stamp = 1\<rparr>, \<lparr>var = 1, value_v = 4, stamp = 1\<rparr>],
      keep_tenure = 2, forbid_tabu_list = [\<lparr>var = 0, value_v = 3, stamp = 1\<rparr>],
      forbid_tenure = 2, tabu_factor = 1 / 2, stamp = 2\<rparr>))"
proof -
  let ?m = "\<lparr>step = 1, current = 50, best = 10, maximize = False, last_v = 50,
      keep_tabu_list = [\<lparr>var = 0, value_v = 7, stamp = 1\<rparr>, \<lparr>var = 1, value_v = 4, stamp = 1\<rparr>],
      keep_tenure = 2, forbid_tabu_list = [\<lparr>var = 0, value_v = 3, stamp = 1\<rparr>],
      forbid_tenure = 2, tabu_factor = 1 / 2, stamp = 2\<rparr>"
  let ?bad = "\<lambda>v. case v of Objective \<Rightarrow> 40 | Var i \<Rightarrow> (3::int) | BoolVar j \<Rightarrow> 0"
  let ?good = "\<lambda>v. case v of Objective \<Rightarrow> 40 | Var i \<Rightarrow> (4::int) | BoolVar j \<Rightarrow> 0"
  have h1: "0 \<le> tabu_factor ?m" and h2: "tabu_factor ?m \<le> 1"
    and h3: "keep_tabu_list ?m @ forbid_tabu_list ?m \<noteq> []"
    by simp_all
  have n: "tabu_entries ?m = 3" by (simp add: tabu_entries_def)
  then have h4: "tabu_entries ?m < 2 ^ 53" by simp
  have h5: "in_int64 (if maximize ?m then sint (best ?m) + sint (step ?m)
                      else sint (best ?m) - sint (step ?m))"
    and h6: "in_int64 (if maximize ?m then sint (current ?m) + sint (step ?m)
                      else sint (current ?m) - sint (step ?m))"
    by (simp_all add: in_int64_def)
  have prod: "real (tabu_entries ?m) * tabu_factor ?m = 3 / 2" unfolding n by simp
  have thr: "\<lfloor>to_double (real (tabu_entries ?m) * tabu_factor ?m)\<rfloor> = 1"
    unfolding prod to_double_3_2 by simp
  have bad: "satisfied_literals ?bad ?m = 0" "\<not> aspiration_holds ?bad ?m"
    by (simp_all add: satisfied_literals_def keep_satisfied_def forbid_satisfied_def
        aspiration_holds_def)
  have good: "satisfied_literals ?good ?m = 2" "descent_holds ?good ?m"
    by (simp_all add: satisfied_literals_def keep_satisfied_def forbid_satisfied_def
        descent_holds_def)
  from TabuSearch_ApplyDecision_softened_tabu[OF h1 h2 h3 h4 h5 h6, of ?bad 5] thr bad
  have nb: "\<not> posted_satisfiable ?bad (fst (TabuSearch_ApplyDecision False 5 ?m))" by simp
  from TabuSearch_ApplyDecision_softened_tabu[OF h1 h2 h3 h4 h5 h6, of ?good 5] thr good
  have g: "posted_satisfiable ?good (fst (TabuSearch_ApplyDecision False 5 ?m))" by simp
  have thr': "\<lfloor>to_double (real (tabu_entries ?m) * (1 / 2))\<rfloor> = 1"
    unfolding n by (simp add: to_double_3_2)
  have i5: "in_int64 (sint (10 :: int64) - sint (1 :: int64))"
    and i6: "in_int64 (sint (50 :: int64) - sint (1 :: int64))"
    by (simp_all add: in_int64_def)
  have f: "(0::real) \<le> 1 / 2" "(1::real) / 2 \<le> 1" "(3::nat) < 2 ^ 53" by simp_all
  from f(1,2) n f(3) i5 i6 thr' bad(1) nb good(1) g show ?thesis by (intro conjI)
qed

text \<open>
  C4 as stated has the ceiling of the product as threshold. With one keep entry
  (variable 0 keeps 7) and tabu factor \<open>1 / 2\<close> the ceiling is 1, but the threshold
  posted is 0: the constraints hold with variable 0 at 8 and the aspiration literal
  false, so no tabu literal is satisfied.
\<close>

theorem TabuSearch_ApplyDecision_ceiling_counterexample:
  "fst (TabuSearch_ApplyDecision False 0
     \<lparr>step = 1, current = 50, best = 10, maximize = False, last_v = 50,
      keep_tabu_list = [\<lparr>var = 0, value_v = 7, stamp = 1\<rparr>], keep_tenure = 2,
      forbid_tabu_list = [], forbid_tenure = 2, tabu_factor = 1 / 2, stamp = 2\<rparr>)
   = [IsLessOrEqualCstCt (V Objective) 9 (BoolVar 0),
      IsEqualCstCt (V (Var 0)) 7 (BoolVar 1),
      IsGreaterOrEqualCstCt (Sum [BoolVar 1]) 0 (BoolVar 2),
      GreaterOrEqual (Sum [BoolVar 0, BoolVar 2]) 1,
      LessOrEqual (V Objective) 49,
      NonEquality (V Objective) 50] \<and>
   list_all
     (holds (\<lambda>v. case v of Objective \<Rightarrow> 40 | Var i \<Rightarrow> 8
                          | BoolVar j \<Rightarrow> if j = 2 then 1 else 0))
     (fst (TabuSearch_ApplyDecision False 0
       \<lparr>step = 1, current = 50, best = 10, maximize = False, last_v = 50,
        keep_tabu_list = [\<lparr>var = 0, value_v = 7, stamp = 1\<rparr>], keep_tenure = 2,
        forbid_tabu_list = [], forbid_tenure = 2, tabu_factor = 1 / 2, stamp = 2\<rparr>)) \<and>
   satisfied_literals
     (\<lambda>v. case v of Objective \<Rightarrow> 40 | Var i \<Rightarrow> 8 | BoolVar j \<Rightarrow> if j = 2 then 1 else 0)
     \<lparr>step = 1, current = 50, best = 10, maximize = False, last_v = 50,
      keep_tabu_list = [\<lparr>var = 0, value_v = 7, stamp = 1\<rparr>], keep_tenure = 2,
      forbid_tabu_list = [], forbid_tenure = 2, tabu_factor = 1 / 2, stamp = 2\<rparr> = 0 \<and>
   \<not> aspiration_holds
     (\<lambda>v. case v of Objective \<Rightarrow> 40 | Var i \<Rightarrow> 8 | BoolVar j \<Rightarrow> if j = 2 then 1 else 0)
     \<lparr>step = 1, current = 50, best = 10, maximize = False, last_v = 50,
      keep_tabu_list = [\<lparr>var = 0, value_v = 7, stamp = 1\<rparr>], keep_tenure = 2,
      forbid_tabu_list = [], forbid_tenure = 2, tabu_factor = 1 / 2, stamp = 2\<rparr> \<and>
   \<lceil>real (length [\<lparr>var = 0, value_v = 7, stamp = 1\<rparr>]) * (1 / 2)\<rceil> = 1"
  by (simp add: TabuSearch_ApplyDecision_def tabu_literals_def fresh_bool_vars_1
      fresh_bool_vars_0 keep_cst_def forbid_cst_def tabu_threshold_def double_to_int64_def
      to_double_1 to_double_half satisfied_literals_def keep_satisfied_def
      aspiration_holds_def truth_def Let_def ceiling_half)

text \<open>
  The reason for the condition on the sums: with \<open>best_ = kint64max\<close> and step 2 when
  maximizing, the constant \<open>best_ + step_\<close> of the aspiration constraint wraps around to
  \<open>kint64min + 1\<close>, which every objective value reaches. So with one keep entry and tabu
  factor 1 (threshold 1) the constraints hold with no tabu literal satisfied, although
  the objective, 5, is not at least \<open>best + step\<close>.
\<close>

lemma TabuSearch_ApplyDecision_wrapped_aspiration:
  "fst (TabuSearch_ApplyDecision False 0
     \<lparr>step = 2, current = 0, best = kint64max, maximize = True, last_v = 0,
      keep_tabu_list = [\<lparr>var = 0, value_v = 7, stamp = 1\<rparr>], keep_tenure = 2,
      forbid_tabu_list = [], forbid_tenure = 2, tabu_factor = 1, stamp = 2\<rparr>)
   = [IsGreaterOrEqualCstCt (V Objective) (kint64min + 1) (BoolVar 0),
      IsEqualCstCt (V (Var 0)) 7 (BoolVar 1),
      IsGreaterOrEqualCstCt (Sum [BoolVar 1]) 1 (BoolVar 2),
      GreaterOrEqual (Sum [BoolVar 0, BoolVar 2]) 1,
      GreaterOrEqual (V Objective) 2,
      NonEquality (V Objective) 0] \<and>
   list_all
     (holds (\<lambda>v. case v of Objective \<Rightarrow> 5 | Var i \<Rightarrow> 8 | BoolVar j \<Rightarrow> if j = 0 then 1 else 0))
     (fst (TabuSearch_ApplyDecision False 0
       \<lparr>step = 2, current = 0, best = kint64max, maximize = True, last_v = 0,
      keep_tabu_list = [\<lparr>var = 0, value_v = 7, stamp = 1\<rparr>], keep_tenure = 2,
      forbid_tabu_list = [], forbid_tenure = 2, tabu_factor = 1, stamp = 2\<rparr>)) \<and>
   satisfied_literals
     (\<lambda>v. case v of Objective \<Rightarrow> 5 | Var i \<Rightarrow> 8 | BoolVar j \<Rightarrow> if j = 0 then 1 else 0)
     \<lparr>step = 2, current = 0, best = kint64max, maximize = True, last_v = 0,
      keep_tabu_list = [\<lparr>var = 0, value_v = 7, stamp = 1\<rparr>], keep_tenure = 2,
      forbid_tabu_list = [], forbid_tenure = 2, tabu_factor = 1, stamp = 2\<rparr> = 0 \<and>
   \<not> aspiration_holds
     (\<lambda>v. case v of Objective \<Rightarrow> 5 | Var i \<Rightarrow> 8 | BoolVar j \<Rightarrow> if j = 0 then 1 else 0)
     \<lparr>step = 2, current = 0, best = kint64max, maximize = True, last_v = 0,
      keep_tabu_list = [\<lparr>var = 0, value_v = 7, stamp = 1\<rparr>], keep_tenure = 2,
      forbid_tabu_list = [], forbid_tenure = 2, tabu_factor = 1, stamp = 2\<rparr>"
  by (simp add: TabuSearch_ApplyDecision_def tabu_literals_def fresh_bool_vars_1
      fresh_bool_vars_0 keep_cst_def forbid_cst_def tabu_threshold_def double_to_int64_def
      to_double_1 satisfied_literals_def keep_satisfied_def
      aspiration_holds_def truth_def Let_def kint64max_def kint64min_def)

section \<open>Restart schedule\<close>

subsection \<open>Conversions between int and int64\<close>

lemma sint_int32: "in_int32 k \<Longrightarrow> sint (word_of_int k :: int32) = k"
  by (simp add: in_int32_def sint_sbintrunc' signed_take_bit_int_eq_self)

lemma sint_int32_bounds: "in_int64 (sint (w :: int32))" "sint w < 2 ^ 31" "- (2 ^ 31) \<le> sint w"
  using sint_lt[of w] sint_ge[of w] by (simp_all add: in_int64_def)

lemma sint_int32_to_int64: "sint (int32_to_int64 w) = sint w"
  unfolding int32_to_int64_def by (rule sint_int64) (rule sint_int32_bounds)

lemma sint_kint32max: "sint kint32max = 2147483647"
  by (simp add: kint32max_def)

subsection \<open>Facts about NextLuby\<close>

text \<open>
  Outside \<open>0 < i < kint32max\<close> the function does not return. For \<open>i \<le> 0\<close> the loop ends
  at once with \<open>power = 2\<close>, which is not \<open>i + 1\<close>, and the recursive call has the
  argument \<open>i - 1 + 1 = i\<close>. At kint32max the sum \<open>i + 1\<close> wraps around to the least int,
  and the same happens.
\<close>

lemma loop_min: "luby_power_loop 2 (int32_to_int64 (kint32max + 1)) = Some 2"
  by (subst luby_power_loop.simps) (simp add: kint32max_def int32_to_int64_def)

lemma NextLuby_nonpos_step:
  assumes "sint (i :: int32) \<le> 0"
  shows "luby_power_loop 2 (int32_to_int64 (i + 1)) = Some 2"
    and "(2 :: int64) \<noteq> int32_to_int64 (i + 1)"
    and "int64_to_int32 (int32_to_int64 i - int64_sdiv 2 2 + 1) = i"
proof -
  have "in_int32 (sint i + sint (1 :: int32))"
    using assms sint_ge[of i] by (simp add: in_int32_def)
  then have "sint (i + 1) = sint i + 1"
    by (simp add: in_int32_def sint_word_ariths signed_take_bit_int_eq_self)
  with assms have small: "sint (int32_to_int64 (i + 1)) \<le> 1"
    by (simp add: sint_int32_to_int64)
  then show "luby_power_loop 2 (int32_to_int64 (i + 1)) = Some 2"
    by (subst luby_power_loop.simps) simp
  show "(2 :: int64) \<noteq> int32_to_int64 (i + 1)"
  proof
    assume "(2 :: int64) = int32_to_int64 (i + 1)"
    then have "sint (2 :: int64) = sint (int32_to_int64 (i + 1))" by simp
    with small show False by simp
  qed
  have "int64_sdiv 2 2 = 1" by (simp add: int64_sdiv_def)
  then have "int32_to_int64 i - int64_sdiv 2 2 + 1 = int32_to_int64 i" by simp
  then show "int64_to_int32 (int32_to_int64 i - int64_sdiv 2 2 + 1) = i"
    by (simp add: int64_to_int32_def sint_int32_to_int64)
qed

lemma NextLuby_returns_in_range:
  assumes "NextLuby x = Some y"
  shows "0 < sint x \<and> x \<noteq> kint32max"
proof (rule NextLuby.raw_induct[where P = "\<lambda>x y. 0 < sint x \<and> x \<noteq> kint32max", OF _ assms],
    goal_cases)
  case (1 f i v)
  show ?case
  proof (rule ccontr)
    assume "\<not> (0 < sint i \<and> i \<noteq> kint32max)"
    then consider "sint i \<le> 0" | "i = kint32max" by fastforce
    then have "f i = Some v"
    proof cases
      case 1
      from NextLuby_nonpos_step[OF this] \<open>_ = Some v\<close> show ?thesis by simp
    next
      case 2
      have "int64_to_int32 (int32_to_int64 kint32max - int64_sdiv 2 2 + 1) = kint32max"
        by (simp add: kint32max_def int32_to_int64_def int64_to_int32_def int64_sdiv_def)
      moreover have "(2::int64) \<noteq> int32_to_int64 (kint32max + 1)"
        by (simp add: kint32max_def int32_to_int64_def)
      ultimately show ?thesis
        using \<open>_ = Some v\<close> by (simp add: 2 loop_min)
    qed
    from 1(1)[OF this] \<open>\<not> (0 < sint i \<and> i \<noteq> kint32max)\<close> show False by simp
  qed
qed

lemma NextLuby_kint32max: "NextLuby kint32max = None"
  using NextLuby_returns_in_range[of kint32max] by (cases "NextLuby kint32max") auto

text \<open>The loop doubles \<open>power\<close> until it is at least \<open>n\<close>; below \<open>2 ^ 32\<close> nothing
  overflows.\<close>

lemma luby_power_loop_result:
  "0 < p \<Longrightarrow> p \<le> 2 ^ 32 \<Longrightarrow> 0 \<le> n \<Longrightarrow> n \<le> 2 ^ 31 \<Longrightarrow>
   \<exists>m. luby_power_loop (word_of_int p) (word_of_int n) = Some (word_of_int (p * 2 ^ m)) \<and>
       n \<le> p * 2 ^ m \<and> (0 < m \<longrightarrow> p * 2 ^ (m - 1) < n) \<and> p * 2 ^ m \<le> 2 ^ 32"
proof (induction "nat (n - p)" arbitrary: p rule: less_induct)
  case less
  have sp: "sint (word_of_int p :: int64) = p" and sn: "sint (word_of_int n :: int64) = n"
    using less.prems by (simp_all add: sint_int64 in_int64_def)
  show ?case
  proof (cases "p < n")
    case False
    then have "luby_power_loop (word_of_int p) (word_of_int n) = Some (word_of_int (p * 2 ^ 0))"
      by (subst luby_power_loop.simps) (simp add: sp sn)
    with False less.prems show ?thesis by (intro exI[of _ 0]) simp
  next
    case True
    with less.prems have "nat (n - p * 2) < nat (n - p)" "0 < p * 2" "p * 2 \<le> 2 ^ 32"
      by simp_all
    from less.hyps[OF this less.prems(3,4)]
    obtain m where m: "luby_power_loop (word_of_int (p * 2)) (word_of_int n)
          = Some (word_of_int (p * 2 * 2 ^ m))"
      "n \<le> p * 2 * 2 ^ m" "0 < m \<longrightarrow> p * 2 * 2 ^ (m - 1) < n" "p * 2 * 2 ^ m \<le> 2 ^ 32"
      by auto
    have shift: "push_bit 1 (word_of_int p :: int64) = word_of_int (p * 2)"
      by (simp add: push_bit_eq_mult)
    from True m(1) have "luby_power_loop (word_of_int p) (word_of_int n)
        = Some (word_of_int (p * 2 ^ Suc m))"
      by (subst luby_power_loop.simps) (simp add: sp sn shift mult.assoc)
    moreover from m(2) have "n \<le> p * 2 ^ Suc m" by (simp add: mult.assoc)
    moreover from m(4) have "p * 2 ^ Suc m \<le> 2 ^ 32" by (simp add: mult.assoc)
    moreover have "p * 2 ^ (Suc m - 1) < n"
    proof (cases m)
      case 0 with True show ?thesis by simp
    next
      case (Suc j) with m(3) show ?thesis by (simp add: mult.assoc)
    qed
    ultimately show ?thesis by (intro exI[of _ "Suc m"]) simp
  qed
qed

text \<open>The loop started at 2 finds the least power of two (with exponent at least 1)
  that is at least \<open>n\<close>.\<close>

lemma luby_power_loop_least:
  assumes "(2::int) ^ (k - 1) < n" "n \<le> 2 ^ k" "1 \<le> k" "n \<le> 2 ^ 31"
  shows "luby_power_loop 2 (word_of_int n) = Some (word_of_int (2 ^ k))"
proof -
  have "(0::int) < 2 ^ (k - 1)" by simp
  with assms(1) have "0 \<le> n" by linarith
  from luby_power_loop_result[of 2 n, OF _ _ this assms(4)]
  obtain m where m: "luby_power_loop 2 (word_of_int n) = Some (word_of_int (2 * 2 ^ m))"
    "n \<le> 2 * 2 ^ m" "0 < m \<longrightarrow> 2 * 2 ^ (m - 1) < n"
    by auto
  have "Suc m = k"
  proof (rule ccontr)
    assume "Suc m \<noteq> k"
    then consider "Suc m \<le> k - 1" | "k \<le> m" using assms(3) by linarith
    then show False
    proof cases
      case 1
      then have "(2::int) ^ Suc m \<le> 2 ^ (k - 1)" by (rule power_increasing) simp
      with m(2) assms(1) show False by simp
    next
      case 2
      with assms(3) have "0 < m" by simp
      then have "(2::int) * 2 ^ (m - 1) = 2 ^ m" by (cases m) simp_all
      with m(3) \<open>0 < m\<close> have "(2::int) ^ m < n" by simp
      moreover from 2 have "(2::int) ^ k \<le> 2 ^ m" by (rule power_increasing) simp
      ultimately show False using assms(2) by simp
    qed
  qed
  with m(1) show ?thesis by auto
qed

lemma least_power_bounds:
  fixes i :: int
  assumes "0 < i" "i + 1 \<le> 2 ^ k" "\<forall>j. i + 1 \<le> 2 ^ j \<longrightarrow> k \<le> j"
  shows "1 \<le> k" and "2 ^ (k - 1) < i + 1"
proof -
  show k: "1 \<le> k"
  proof (rule ccontr)
    assume "\<not> 1 \<le> k"
    then have "k = 0" by simp
    with assms(1,2) show False by simp
  qed
  show "2 ^ (k - 1) < i + 1"
  proof (rule ccontr)
    assume "\<not> 2 ^ (k - 1) < i + 1"
    then have "i + 1 \<le> 2 ^ (k - 1)" by simp
    with assms(3) have "k \<le> k - 1" by blast
    with k show False by simp
  qed
qed

lemma NextLuby_step:
  assumes "(2::int) ^ (k - 1) < i + 1" "i + 1 \<le> 2 ^ k" "1 \<le> k" "0 < i" "i < 2 ^ 31 - 1"
  shows "NextLuby (word_of_int i) =
    (if i + 1 = 2 ^ k then Some (word_of_int (2 ^ (k - 1)))
     else NextLuby (word_of_int (i - 2 ^ (k - 1) + 1)))"
proof -
  have double: "(2::int) ^ k = 2 * 2 ^ (k - 1)"
    using assms(3) by (cases k) simp_all
  then have half: "(2::int) ^ k div 2 = 2 ^ (k - 1)" by simp
  have small: "(2::int) ^ (k - 1) < 2 ^ 31" using assms(1,5) by linarith
  with double have pk: "(2::int) ^ k < 2 ^ 32" by simp
  have s1: "sint (word_of_int (i + 1) :: int32) = i + 1"
    using assms(4,5) by (intro sint_int32) (simp add: in_int32_def)
  have s0: "sint (word_of_int i :: int32) = i"
    using assms(4,5) by (intro sint_int32) (simp add: in_int32_def)
  have w1: "(word_of_int i + 1 :: int32) = word_of_int (i + 1)" by simp
  have arg: "int32_to_int64 (word_of_int i + 1) = word_of_int (i + 1)"
    and argi: "int32_to_int64 (word_of_int i) = word_of_int i"
    by (simp_all only: int32_to_int64_def w1 s1 s0)
  have loop: "luby_power_loop 2 (word_of_int (i + 1)) = Some (word_of_int (2 ^ k))"
    using assms by (intro luby_power_loop_least) simp_all
  have "- (2 ^ 63) \<le> (0::int)" "(0::int) \<le> 2 ^ k" by simp_all
  then have "- (2 ^ 63) \<le> (2::int) ^ k" by (rule order_trans)
  with pk have "sint (word_of_int (2 ^ k) :: int64) = 2 ^ k"
    by (intro sint_int64) (simp add: in_int64_def)
  then have sdiv: "int64_sdiv (word_of_int (2 ^ k)) 2 = word_of_int (2 ^ (k - 1))"
    by (simp add: int64_sdiv_def signed_divide_int_def half sgn_if)
  have eq: "(word_of_int (2 ^ k) = (word_of_int (i + 1) :: int64)) \<longleftrightarrow> i + 1 = 2 ^ k"
  proof
    assume "word_of_int (2 ^ k) = (word_of_int (i + 1) :: int64)"
    then have "sint (word_of_int (2 ^ k) :: int64) = sint (word_of_int (i + 1) :: int64)" by simp
    moreover have "sint (word_of_int (i + 1) :: int64) = i + 1"
      using assms(4,5) by (intro sint_int64) (simp add: in_int64_def)
    ultimately show "i + 1 = 2 ^ k" using \<open>sint (word_of_int (2 ^ k) :: int64) = 2 ^ k\<close> by simp
  qed simp
  define j where "j = i - 2 ^ (k - 1) + 1"
  have "(0::int) < 2 ^ (k - 1)" by simp
  with assms(1) have "0 < j" "j \<le> i" unfolding j_def by linarith+
  with assms(5) have "in_int64 j" by (simp add: in_int64_def)
  then have narrow: "int64_to_int32 (word_of_int (i - 2 ^ (k - 1) + 1)) = word_of_int (i - 2 ^ (k - 1) + 1)"
    unfolding j_def by (simp only: int64_to_int32_def sint_int64)
  have w2: "(word_of_int i - word_of_int (2 ^ (k - 1)) + 1 :: int64)
      = word_of_int (i - 2 ^ (k - 1) + 1)"
    by simp
  have "NextLuby (word_of_int i) =
      do { pw \<leftarrow> luby_power_loop 2 (word_of_int (i + 1));
           if pw = word_of_int (i + 1) then Some (int64_sdiv pw 2)
           else NextLuby (int64_to_int32 (word_of_int i - int64_sdiv pw 2 + 1)) }"
    by (subst NextLuby.simps) (simp only: arg argi)
  also have "\<dots> =
      (if i + 1 = 2 ^ k then Some (word_of_int (2 ^ (k - 1)))
       else NextLuby (word_of_int (i - 2 ^ (k - 1) + 1)))"
    by (simp only: loop Option.bind.simps eq sdiv w2 narrow)
  finally show ?thesis .
qed

lemma exists_least_power:
  fixes i :: int
  assumes "0 < i"
  shows "\<exists>k. 1 \<le> k \<and> 2 ^ (k - 1) < i + 1 \<and> i + 1 \<le> 2 ^ k"
proof -
  have "\<exists>k. i + 1 \<le> 2 ^ k"
  proof -
    have "int (nat (i + 1)) < 2 ^ nat (i + 1)" by (rule of_nat_less_two_power)
    then have "i + 1 < 2 ^ nat (i + 1)" using assms by simp
    then show ?thesis by (intro exI[of _ "nat (i + 1)"]) simp
  qed
  then obtain k where k: "i + 1 \<le> 2 ^ k" "\<forall>j. i + 1 \<le> 2 ^ j \<longrightarrow> k \<le> j"
    using exists_least_iff[of "\<lambda>k. i + 1 \<le> 2 ^ k"] by (metis not_less)
  from least_power_bounds[OF assms k] k(1) show ?thesis by blast
qed

text \<open>For an argument in \<open>0 < i < kint32max\<close> NextLuby returns, and what it returns is
  positive and at most \<open>i\<close>.\<close>

lemma NextLuby_total:
  "0 < i \<Longrightarrow> i < 2 ^ 31 - 1 \<Longrightarrow> \<exists>v. NextLuby (word_of_int i) = Some (word_of_int v) \<and> 0 < v \<and> v \<le> i"
proof (induction "nat i" arbitrary: i rule: less_induct)
  case less
  obtain k where k: "1 \<le> k" "2 ^ (k - 1) < i + 1" "i + 1 \<le> 2 ^ k"
    using exists_least_power[OF less.prems(1)] by blast
  note step = NextLuby_step[OF k(2) k(3) k(1) less.prems]
  show ?case
  proof (cases "i + 1 = 2 ^ k")
    case True
    from k(2) have "(2::int) ^ (k - 1) \<le> i" by simp
    moreover from step True have "NextLuby (word_of_int i) = Some (word_of_int (2 ^ (k - 1)))"
      by simp
    ultimately show ?thesis by (intro exI[of _ "2 ^ (k - 1)"]) simp
  next
    case False
    have "k \<noteq> 1"
    proof
      assume "k = 1"
      with k(2,3) False show False by simp
    qed
    with k(1) have "2 \<le> k" by simp
    then have "(2::int) ^ 1 \<le> 2 ^ (k - 1)" by (intro power_increasing) simp_all
    then have big: "(2::int) \<le> 2 ^ (k - 1)" by simp
    let ?j = "i - 2 ^ (k - 1) + 1"
    from k(2) have pos: "0 < ?j" by simp
    from big less.prems have lt: "nat ?j < nat i" "?j < 2 ^ 31 - 1" by simp_all
    from less.hyps[OF lt(1) pos lt(2)] obtain v where
      "NextLuby (word_of_int ?j) = Some (word_of_int v)" "0 < v" "v \<le> ?j" by blast
    with False step big show ?thesis by (intro exI[of _ v]) simp
  qed
qed

text \<open>So NextLuby returns exactly on the range that its DCHECKs state.\<close>

lemma NextLuby_returns_iff:
  "(\<exists>v. NextLuby i = Some v) \<longleftrightarrow> 0 < sint i \<and> sint i < sint kint32max"
proof
  assume "\<exists>v. NextLuby i = Some v"
  then obtain v where "NextLuby i = Some v" ..
  from NextLuby_returns_in_range[OF this] have "0 < sint i" "i \<noteq> kint32max" by simp_all
  moreover have "sint i \<le> sint kint32max" using sint_lt[of i] by (simp add: kint32max_def)
  moreover have "sint i \<noteq> sint kint32max" using \<open>i \<noteq> kint32max\<close> signed_word_eqI by blast
  ultimately show "0 < sint i \<and> sint i < sint kint32max" by simp
next
  assume r: "0 < sint i \<and> sint i < sint kint32max"
  then have "sint i < 2 ^ 31 - 1" by (simp add: kint32max_def)
  with r NextLuby_total[of "sint i"] show "\<exists>v. NextLuby i = Some v" by auto
qed

subsection \<open>The Luby schedule\<close>

text \<open>
  C5 (as amended). For every argument \<open>i\<close> with \<open>0 < i < kint32max\<close>, the range that
  the function's DCHECKs state, NextLuby satisfies the classical recurrence: with
  \<open>2 ^ k\<close> the smallest power of two that is at least \<open>i + 1\<close>, \<open>NextLuby i\<close> is
  \<open>2 ^ (k - 1)\<close> when \<open>i + 1 = 2 ^ k\<close> and \<open>NextLuby (i - 2 ^ (k - 1) + 1)\<close> otherwise; it
  returns, with a value between 1 and \<open>i\<close>; and on 1, ..., 16 it yields
  1,1,2,1,1,2,4,1,1,2,1,1,2,4,8,1.
\<close>

theorem NextLuby_classical_recurrence:
  assumes "0 < i" "i < sint kint32max" "i + 1 \<le> 2 ^ k" "\<forall>j. i + 1 \<le> 2 ^ j \<longrightarrow> k \<le> j"
  shows "NextLuby (word_of_int i) =
           (if i + 1 = 2 ^ k then Some (word_of_int (2 ^ (k - 1)))
            else NextLuby (word_of_int (i - 2 ^ (k - 1) + 1))) \<and>
         (\<exists>v. NextLuby (word_of_int i) = Some (word_of_int v) \<and> 0 < v \<and> v \<le> i) \<and>
         map NextLuby [1, 2, 3, 4, 5, 6, 7, 8, 9, 10, 11, 12, 13, 14, 15, 16] =
         map Some [1, 1, 2, 1, 1, 2, 4, 1, 1, 2, 1, 1, 2, 4, 8, 1]"
proof (intro conjI)
  from least_power_bounds[OF assms(1,3,4)] have k: "1 \<le> k" "2 ^ (k - 1) < i + 1" by simp_all
  from assms(2) have i: "i < 2 ^ 31 - 1" by (simp add: sint_kint32max)
  show "NextLuby (word_of_int i) =
           (if i + 1 = 2 ^ k then Some (word_of_int (2 ^ (k - 1)))
            else NextLuby (word_of_int (i - 2 ^ (k - 1) + 1)))"
    by (rule NextLuby_step[OF k(2) assms(3) k(1) assms(1) i])
  show "\<exists>v. NextLuby (word_of_int i) = Some (word_of_int v) \<and> 0 < v \<and> v \<le> i"
    by (rule NextLuby_total[OF assms(1) i])
  show "map NextLuby [1, 2, 3, 4, 5, 6, 7, 8, 9, 10, 11, 12, 13, 14, 15, 16] =
         map Some [1, 1, 2, 1, 1, 2, 4, 1, 1, 2, 1, 1, 2, 4, 8, 1]"
    by code_simp
qed

theorem NextLuby_classical_recurrence_witness:
  "(0::int) < 5 \<and> (5::int) < sint kint32max \<and> (5::int) + 1 \<le> 2 ^ 3 \<and> \<not> (5::int) + 1 \<le> 2 ^ 2 \<and>
   NextLuby 5 = NextLuby 2 \<and> NextLuby 2 = Some 1"
proof -
  have least: "\<forall>j. (5::int) + 1 \<le> 2 ^ j \<longrightarrow> 3 \<le> j"
  proof (intro allI impI, rule ccontr)
    fix j :: nat
    assume le: "(5::int) + 1 \<le> 2 ^ j" and "\<not> 3 \<le> j"
    then have "j \<le> 2" by simp
    then have "(2::int) ^ j \<le> 2 ^ 2" by (intro power_increasing) simp_all
    with le show False by simp
  qed
  have h1: "(0::int) < 5" and h2: "(5::int) < sint kint32max" and h3: "(5::int) + 1 \<le> 2 ^ 3"
    by (simp_all add: sint_kint32max)
  from NextLuby_classical_recurrence[OF h1 h2 h3 least]
  have "NextLuby 5 = NextLuby 2" by simp
  moreover have "NextLuby 2 = Some 1" by code_simp
  ultimately show ?thesis by (simp add: sint_kint32max)
qed

text \<open>
  C5 as stated has no bound on \<open>i\<close>. At \<open>i = kint32max\<close> the smallest power of two that
  is at least \<open>i + 1\<close> is \<open>2 ^ 31 = i + 1\<close>, so the recurrence gives \<open>2 ^ 30\<close>; the function
  does not return there.
\<close>

theorem NextLuby_kint32max_counterexample:
  "NextLuby kint32max = None \<and> sint kint32max + 1 = 2 ^ 31 \<and> \<not> sint kint32max + 1 \<le> 2 ^ 30"
  by (simp add: NextLuby_kint32max) (simp add: kint32max_def)

subsection \<open>The invariant of LubyRestart\<close>

lemma NextLuby_Luby:
  assumes "0 < i" "i < 2147483647"
  shows "NextLuby (of_nat i) = Some (word_of_int (Luby i))" "0 < Luby i" "Luby i \<le> int i"
proof -
  from NextLuby_total[of "int i"] assms obtain v where
    v: "NextLuby (word_of_int (int i)) = Some (word_of_int v)" "0 < v" "v \<le> int i" by auto
  with assms(2) have "in_int64 v" by (simp add: in_int64_def)
  then have "sint (word_of_int v :: int64) = v" by (rule sint_int64)
  with v have "Luby i = v" by (simp add: Luby_def)
  with v show "NextLuby (of_nat i) = Some (word_of_int (Luby i))" "0 < Luby i" "Luby i \<le> int i"
    by simp_all
qed

lemma Luby_1: "Luby (Suc 0) = 1"
proof -
  have "NextLuby 1 = Some 1" by code_simp
  then show ?thesis by (simp add: Luby_def)
qed

lemma restart_point_0: "restart_point scale 0 = 0"
  by (simp add: restart_point_def)

lemma restart_point_Suc:
  "restart_point scale (Suc k) = restart_point scale k + scale * Luby (Suc k)"
  by (simp add: restart_point_def distrib_left)

lemma restart_point_ge:
  "1 \<le> scale \<Longrightarrow> k \<le> 2147483646 \<Longrightarrow> int k \<le> restart_point scale k"
proof (induction k)
  case 0
  then show ?case by (simp add: restart_point_0)
next
  case (Suc k)
  then have "0 < Luby (Suc k)" by (intro NextLuby_Luby(2)) simp_all
  then have "1 \<le> Luby (Suc k)" by simp
  with Suc.prems(1) have "1 * 1 \<le> scale * Luby (Suc k)" by (intro mult_mono) simp_all
  with Suc show ?case by (simp add: restart_point_Suc)
qed

lemma luby_inv_BeginFail:
  assumes "1 \<le> sint scale" "luby_inv scale n (m, c, r)"
    and "n + 1 < restart_point (sint scale) 2147483646"
  shows "\<exists>m' r'. LubyRestart_BeginFail m = Some (m', r') \<and>
           luby_inv scale (n + 1) (m', (if r' then Suc c else c), r')"
proof -
  let ?s = "sint scale"
  from assms(2) have inv: "scale_factor m = scale" "sint (LubyRestart.iteration m) = int c + 1"
      "sint (current_fails m) = n - restart_point ?s c"
      "sint (next_step m) = Luby (Suc c) * ?s"
      "restart_point ?s c \<le> n" "n < restart_point ?s (Suc c)" "c < 2147483646"
    by (simp_all add: luby_inv_def)
  have next_eq: "restart_point ?s (Suc c) = restart_point ?s c + sint (next_step m)"
    by (simp add: restart_point_Suc inv(4) mult.commute)
  have "sint (next_step m) < 2 ^ 63" using sint_lt[of "next_step m"] by simp
  with inv(3,6) next_eq have "sint (current_fails m) < 2 ^ 63 - 1" by simp
  then have cf: "sint (current_fails m + 1) = n + 1 - restart_point ?s c"
    by (simp add: sint_succ inv(3))
  show ?thesis
  proof (cases "sint (next_step m) \<le> sint (current_fails m + 1)")
    case True
    with cf inv(6) next_eq have hit: "n + 1 = restart_point ?s (Suc c)" by simp
    with assms(3) inv(7) have c2: "Suc c < 2147483646"
      by (cases "Suc c = 2147483646") simp_all
    have "LubyRestart.iteration m = word_of_int (sint (LubyRestart.iteration m))" by simp
    then have "LubyRestart.iteration m + 1 = word_of_int (int c + 1) + 1" by (simp only: inv(2))
    then have it: "LubyRestart.iteration m + 1 = of_nat (Suc (Suc c))" by simp
    have "in_int32 (int (Suc (Suc c)))" using c2 by (simp add: in_int32_def)
    then have "sint (word_of_int (int (Suc (Suc c))) :: int32) = int (Suc (Suc c))"
      by (rule sint_int32)
    then have sit: "sint (LubyRestart.iteration m + 1) = int (Suc c) + 1"
      by (simp add: it)
    from c2 have arg: "0 < Suc (Suc c)" "Suc (Suc c) < 2147483647" by simp_all
    note luby = NextLuby_Luby[OF arg]
    have "Luby (Suc (Suc c)) * ?s \<le> 2 ^ 31 * 2 ^ 31"
      using luby(2,3) c2 assms(1) sint_int32_bounds(2)[of scale] by (intro mult_mono) simp_all
    moreover have "0 < Luby (Suc (Suc c)) * ?s" using luby(2) assms(1) by simp
    ultimately have "in_int64 (Luby (Suc (Suc c)) * ?s)" by (simp add: in_int64_def)
    then have "sint (word_of_int (Luby (Suc (Suc c)) * ?s) :: int64) = Luby (Suc (Suc c)) * ?s"
      by (rule sint_int64)
    moreover have "word_of_int (Luby (Suc (Suc c))) * int32_to_int64 scale
        = (word_of_int (Luby (Suc (Suc c)) * ?s) :: int64)"
      by (simp only: int32_to_int64_def wi_hom_mult)
    ultimately have ns: "sint (word_of_int (Luby (Suc (Suc c))) * int32_to_int64 scale)
        = Luby (Suc (Suc c)) * ?s" by simp
    have "0 < ?s * Luby (Suc (Suc c))" using assms(1) luby(2) by simp
    then have "n + 1 < restart_point ?s (Suc (Suc c))"
      using hit by (simp add: restart_point_Suc[of ?s "Suc c"])
    with True hit luby(1) inv(1) it sit ns c2 show ?thesis
      by (auto simp add: LubyRestart_BeginFail_def Let_def luby_inv_def)
  next
    case False
    with cf next_eq have "n + 1 < restart_point ?s (Suc c)" by simp
    with False inv cf show ?thesis
      by (auto simp add: LubyRestart_BeginFail_def Let_def luby_inv_def)
  qed
qed

lemma fails_in_nonneg: "0 \<le> fails_in hs"
  by (simp add: fails_in_def)

lemma luby_inv_run:
  assumes "1 \<le> sint scale"
  shows "luby_inv scale n st \<Longrightarrow> n + fails_in hs < restart_point (sint scale) 2147483646 \<Longrightarrow>
         \<exists>st'. LubyRestart_run st hs = Some st' \<and> luby_inv scale (n + fails_in hs) st'"
proof (induction hs arbitrary: n st)
  case Nil
  then show ?case by (simp add: fails_in_def)
next
  case (Cons h hs)
  obtain m c r where st: "st = (m, c, r)" by (cases st)
  show ?case
  proof (cases "h = BeginFail")
    case False
    with Cons.prems(2) have "n + fails_in hs < restart_point (sint scale) 2147483646"
      by (simp add: fails_in_def)
    from Cons.IH[OF Cons.prems(1) this] show ?thesis
      by (simp add: st False LubyRestart_hook_def fails_in_def)
  next
    case True
    with Cons.prems(2) have b: "n + 1 + fails_in hs < restart_point (sint scale) 2147483646"
      by (simp add: fails_in_def)
    with fails_in_nonneg[of hs] have "n + 1 < restart_point (sint scale) 2147483646" by linarith
    from luby_inv_BeginFail[OF assms Cons.prems(1)[unfolded st] this]
    obtain m' r' where step: "LubyRestart_BeginFail m = Some (m', r')"
      "luby_inv scale (n + 1) (m', (if r' then Suc c else c), r')" by blast
    from Cons.IH[OF step(2) b] step(1) show ?thesis
      by (simp add: st True LubyRestart_hook_def fails_in_def add.assoc)
  qed
qed

lemma luby_inv_new:
  assumes "new_LubyRestart scale = Some m0"
  shows "1 \<le> sint scale" and "luby_inv scale 0 (m0, 0, False)"
  using assms
  by (auto simp: new_LubyRestart_def luby_inv_def restart_point_0 restart_point_Suc Luby_1
        sint_int32_to_int64 split: if_splits)

text \<open>Once \<open>iteration_\<close> is \<open>kint32max - 1\<close>, the BeginFail at which the next restart is
  due calls \<open>NextLuby(kint32max)\<close> and does not return.\<close>

lemma LubyRestart_BeginFail_at_kint32max:
  assumes "LubyRestart.iteration m = 2147483646" "sint (next_step m) \<le> sint (current_fails m + 1)"
  shows "LubyRestart_BeginFail m = None"
  using assms NextLuby_kint32max by (simp add: LubyRestart_BeginFail_def Let_def kint32max_def)

subsection \<open>Restart points of LubyRestart\<close>

text \<open>
  C6 (as amended). For a LubyRestart monitor built with a scale factor of at least 1,
  count one failure per BeginFail hook since the monitor was built, whatever other hooks
  (EnterSearch included) come in between, and let the failures be fewer than
  \<open>scale * (Luby 1 + ... + Luby 2147483646)\<close>, the point at which restart number
  \<open>2147483646 = kint32max - 1\<close> is due (there \<open>iteration_\<close> becomes kint32max and NextLuby
  does not return). After any such trace, the number \<open>c\<close> of restarts requested so far
  is the one with
  \<open>scale * (Luby 1 + ... + Luby c) \<le> failures < scale * (Luby 1 + ... + Luby (c + 1))\<close>,
  and the latest BeginFail requested a restart exactly when the failures have just
  reached \<open>scale * (Luby 1 + ... + Luby c)\<close>: the k-th request comes exactly at
  \<open>scale * (Luby 1 + ... + Luby k)\<close> failures.
\<close>

theorem LubyRestart_restart_points:
  assumes "new_LubyRestart scale = Some m0"
    and "fails_in hs < restart_point (sint scale) 2147483646"
  shows "\<exists>m c r. LubyRestart_run (m0, 0, False) hs = Some (m, c, r) \<and>
           restart_point (sint scale) c \<le> fails_in hs \<and>
           fails_in hs < restart_point (sint scale) (Suc c) \<and>
           (r \<longleftrightarrow> 0 < c \<and> fails_in hs = restart_point (sint scale) c)"
proof -
  from assms(2) have "0 + fails_in hs < restart_point (sint scale) 2147483646" by simp
  from luby_inv_run[OF luby_inv_new[OF assms(1)] this]
  show ?thesis by (auto simp: luby_inv_def)
qed

theorem LubyRestart_restart_points_witness:
  "new_LubyRestart 3 = Some \<lparr>scale_factor = 3, LubyRestart.iteration = 1, current_fails = 0, next_step = 3\<rparr> \<and>
   fails_in [EnterSearch, BeginFail, BeginFail, BeginFail, BeginFail, BeginFail, BeginFail]
     < restart_point (sint (3 :: int32)) 2147483646 \<and>
   (\<exists>m. LubyRestart_run (\<lparr>scale_factor = 3, LubyRestart.iteration = 1, current_fails = 0, next_step = 3\<rparr>, 0, False)
      [EnterSearch, BeginFail, BeginFail, BeginFail, BeginFail, BeginFail, BeginFail] = Some (m, 2, True)) \<and>
   restart_point (sint (3 :: int32)) 2 = 6 \<and> 6 < restart_point (sint (3 :: int32)) (Suc 2)"
proof -
  let ?hs = "[EnterSearch, BeginFail, BeginFail, BeginFail, BeginFail, BeginFail, BeginFail]"
  have new: "new_LubyRestart 3 = Some \<lparr>scale_factor = 3, LubyRestart.iteration = 1, current_fails = 0, next_step = 3\<rparr>"
    by (simp add: new_LubyRestart_def int32_to_int64_def)
  have run: "LubyRestart_run (\<lparr>scale_factor = 3, LubyRestart.iteration = 1, current_fails = 0, next_step = 3\<rparr>, 0, False) ?hs
     = Some (\<lparr>scale_factor = 3, LubyRestart.iteration = 3, current_fails = 0, next_step = 6\<rparr>, 2, True)"
    by code_simp
  have n: "fails_in ?hs = 6" by (simp add: fails_in_def)
  have "int 2147483646 \<le> restart_point (sint (3 :: int32)) 2147483646"
    by (rule restart_point_ge) simp_all
  then have bound: "fails_in ?hs < restart_point (sint (3 :: int32)) 2147483646"
    unfolding n by simp
  from LubyRestart_restart_points[OF new bound]
  have "restart_point (sint (3 :: int32)) 2 = 6 \<and> 6 < restart_point (sint (3 :: int32)) (Suc 2)"
    unfolding run n by auto
  with new run bound show ?thesis by simp
qed

text \<open>
  C6 as stated counts the failures since EnterSearch. The monitor does not: EnterSearch
  resets nothing. A monitor with scale factor 2 that saw one failure in a first search
  requests its first restart at the first failure of the second search, not at the second
  (\<open>restart_point 2 1 = 2\<close>).
\<close>

theorem LubyRestart_since_EnterSearch_counterexample:
  "new_LubyRestart 2 = Some \<lparr>scale_factor = 2, LubyRestart.iteration = 1, current_fails = 0, next_step = 2\<rparr> \<and>
   LubyRestart_run (\<lparr>scale_factor = 2, LubyRestart.iteration = 1, current_fails = 0, next_step = 2\<rparr>, 0, False)
      [EnterSearch, BeginFail, EnterSearch, BeginFail]
     = Some (\<lparr>scale_factor = 2, LubyRestart.iteration = 2, current_fails = 0, next_step = 2\<rparr>, 1, True) \<and>
   fails_in [EnterSearch, BeginFail] = 1 \<and> restart_point 2 1 = 2"
  by (simp add: fails_in_def new_LubyRestart_def int32_to_int64_def, code_simp)

subsection \<open>The last restart\<close>

lemma restart_point_less:
  assumes "1 \<le> scale"
  shows "a < b \<Longrightarrow> b \<le> 2147483646 \<Longrightarrow> restart_point scale a < restart_point scale b"
proof (induction b)
  case 0
  then show ?case by simp
next
  case (Suc b)
  from Suc.prems(2) have "0 < Luby (Suc b)" by (intro NextLuby_Luby(2)) simp_all
  with assms have pos: "0 < scale * Luby (Suc b)" by simp
  show ?case
  proof (cases "a = b")
    case True
    with pos show ?thesis by (simp add: restart_point_Suc)
  next
    case False
    with Suc.prems have "a < b" "b \<le> 2147483646" by simp_all
    from Suc.IH[OF this] pos show ?thesis by (simp add: restart_point_Suc)
  qed
qed

lemma luby_inv_last_BeginFail:
  assumes "1 \<le> sint scale" "luby_inv scale n (m, c, r)"
    and "n + 1 = restart_point (sint scale) 2147483646"
  shows "LubyRestart_BeginFail m = None"
proof -
  let ?s = "sint scale"
  from assms(2) have inv: "sint (LubyRestart.iteration m) = int c + 1"
      "sint (current_fails m) = n - restart_point ?s c"
      "sint (next_step m) = Luby (Suc c) * ?s"
      "restart_point ?s c \<le> n" "n < restart_point ?s (Suc c)" "c < 2147483646"
    by (simp_all add: luby_inv_def)
  have c: "Suc c = 2147483646"
  proof (rule ccontr)
    assume "Suc c \<noteq> 2147483646"
    with inv(6) have "Suc c < 2147483646" by simp
    from restart_point_less[OF assms(1) this] inv(5) assms(3) show False by simp
  qed
  have "LubyRestart.iteration m = word_of_int (sint (LubyRestart.iteration m))" by simp
  then have "LubyRestart.iteration m = word_of_int (int (Suc c))" by (simp only: inv(1)) simp
  then have it: "LubyRestart.iteration m = 2147483646" by (simp only: c) simp
  have next_eq: "restart_point ?s (Suc c) = restart_point ?s c + sint (next_step m)"
    by (simp add: restart_point_Suc inv(3) mult.commute)
  have "sint (next_step m) < 2 ^ 63" using sint_lt[of "next_step m"] by simp
  with inv(2,5) next_eq have "sint (current_fails m) < 2 ^ 63 - 1" by simp
  then have "sint (current_fails m + 1) = n + 1 - restart_point ?s c"
    by (simp add: sint_succ inv(2))
  with assms(3) next_eq c have due: "sint (next_step m) \<le> sint (current_fails m + 1)" by simp
  from it due show ?thesis by (rule LubyRestart_BeginFail_at_kint32max)
qed

lemma luby_inv_run_hangs:
  assumes "1 \<le> sint scale"
  shows "luby_inv scale n st \<Longrightarrow> n + fails_in hs = restart_point (sint scale) 2147483646 \<Longrightarrow>
         LubyRestart_run st hs = None"
proof (induction hs arbitrary: n st)
  case Nil
  obtain m c r where st: "st = (m, c, r)" by (cases st)
  from Nil.prems(1) have "n < restart_point (sint scale) (Suc c)" "c < 2147483646"
    by (simp_all add: st luby_inv_def)
  moreover have "restart_point (sint scale) (Suc c) \<le> restart_point (sint scale) 2147483646"
  proof (cases "Suc c = 2147483646")
    case True
    then show ?thesis by simp
  next
    case False
    with \<open>c < 2147483646\<close> have "Suc c < 2147483646" by simp
    from restart_point_less[OF assms this] show ?thesis by simp
  qed
  ultimately show ?case using Nil.prems(2) by (simp add: fails_in_def)
next
  case (Cons h hs)
  obtain m c r where st: "st = (m, c, r)" by (cases st)
  show ?case
  proof (cases "h = BeginFail")
    case False
    with Cons.prems(2) have "n + fails_in hs = restart_point (sint scale) 2147483646"
      by (simp add: fails_in_def)
    from Cons.IH[OF Cons.prems(1) this] show ?thesis
      by (simp add: st False LubyRestart_hook_def)
  next
    case True
    with Cons.prems(2) have b: "n + 1 + fails_in hs = restart_point (sint scale) 2147483646"
      by (simp add: fails_in_def)
    show ?thesis
    proof (cases "fails_in hs = 0")
      case True
      with b have "n + 1 = restart_point (sint scale) 2147483646" by simp
      from luby_inv_last_BeginFail[OF assms Cons.prems(1)[unfolded st] this]
      show ?thesis by (simp add: st \<open>h = BeginFail\<close> LubyRestart_hook_def)
    next
      case False
      with fails_in_nonneg[of hs] b have "n + 1 < restart_point (sint scale) 2147483646"
        by linarith
      from luby_inv_BeginFail[OF assms Cons.prems(1)[unfolded st] this]
      obtain m' r' where step: "LubyRestart_BeginFail m = Some (m', r')"
        "luby_inv scale (n + 1) (m', (if r' then Suc c else c), r')" by blast
      from Cons.IH[OF step(2) b] step(1) show ?thesis
        by (simp add: st True LubyRestart_hook_def)
    qed
  qed
qed

text \<open>The bound on the failures is exact: a trace with \<open>scale * (Luby 1 + ... + Luby 2147483646)\<close>
  failures does not come to an end, because the BeginFail at which restart number
  2147483646 is due does not return.\<close>

lemma LubyRestart_last_restart_hangs:
  assumes "new_LubyRestart scale = Some m0"
    and "fails_in hs = restart_point (sint scale) 2147483646"
  shows "LubyRestart_run (m0, 0, False) hs = None"
proof -
  from assms(2) have "0 + fails_in hs = restart_point (sint scale) 2147483646" by simp
  from luby_inv_run_hangs[OF luby_inv_new[OF assms(1)] this] show ?thesis .
qed

end
